theory Spec2Isabelle
  imports Main "HOL-Library.Sublist"
begin

section \<open>Bookmark store (scripts/storage.js)\<close>

text \<open>
  The page state the storage module reads: \<open>document.title\<close> and
  \<open>window.location.pathname\<close>.
\<close>

record page =
  title :: string
  pathname :: string

text \<open>
  \<open>getSpecIdentifier\<close>: the title, unless it is empty or the default
  \<open>Swagger UI\<close>; otherwise the URL path, or \<open>default-spec\<close> when that is empty.
\<close>

definition getSpecIdentifier :: "page \<Rightarrow> string" where
  "getSpecIdentifier pg =
     (if title pg \<noteq> [] \<and> title pg \<noteq> ''Swagger UI'' then title pg
      else if pathname pg \<noteq> [] then pathname pg else ''default-spec'')"

text \<open>\<open>generateRouteKey\<close>: the template \<open>${specId}::${method}::${path}\<close>.\<close>

definition generateRouteKey :: "page \<Rightarrow> string \<Rightarrow> string \<Rightarrow> string" where
  "generateRouteKey pg method path =
     getSpecIdentifier pg @ ''::'' @ method @ ''::'' @ path"

text \<open>
  A JavaScript \<open>Set\<close> of strings iterates in insertion order and holds each
  key once: a list without repetition. \<open>Set_add\<close> appends a new key at the
  end, \<open>Set_delete\<close> removes it, \<open>new_Set\<close> adds the elements of an array
  from left to right, and \<open>Array_from\<close> reads the keys back in order.
\<close>

type_synonym js_set = "string list"

definition Set_has :: "js_set \<Rightarrow> string \<Rightarrow> bool" where
  "Set_has s k = (k \<in> set s)"

definition Set_add :: "js_set \<Rightarrow> string \<Rightarrow> js_set" where
  "Set_add s k = (if Set_has s k then s else s @ [k])"

definition Set_delete :: "js_set \<Rightarrow> string \<Rightarrow> js_set" where
  "Set_delete s k = filter (\<lambda>x. x \<noteq> k) s"

definition new_Set :: "string list \<Rightarrow> js_set" where
  "new_Set routes = foldl Set_add [] routes"

definition Array_from :: "js_set \<Rightarrow> string list" where
  "Array_from s = s"

text \<open>
  The value kept by \<open>chrome.storage.sync\<close> under \<open>swagger_starred_routes\<close>:
  absent (\<open>None\<close>) until the first write, then an array of keys.
\<close>

type_synonym storage = "string list option"

definition getStarredRoutes :: "storage \<Rightarrow> js_set" where
  "getStarredRoutes st = new_Set (case st of None \<Rightarrow> [] | Some routes \<Rightarrow> routes)"

text \<open>
  \<open>toggleStarred\<close> reads the whole set, flips the membership of the key,
  writes the whole set back and resolves to the new membership. The model
  returns the new store and that boolean.
\<close>

definition toggleStarred :: "storage \<Rightarrow> page \<Rightarrow> string \<Rightarrow> string \<Rightarrow> storage \<times> bool" where
  "toggleStarred st pg method path =
     (let routeKey = generateRouteKey pg method path;
          starredRoutes = getStarredRoutes st;
          starredRoutes' = (if Set_has starredRoutes routeKey
                            then Set_delete starredRoutes routeKey
                            else Set_add starredRoutes routeKey)
      in (Some (Array_from starredRoutes'), Set_has starredRoutes' routeKey))"

definition isStarred :: "storage \<Rightarrow> page \<Rightarrow> string \<Rightarrow> string \<Rightarrow> bool" where
  "isStarred st pg method path =
     Set_has (getStarredRoutes st) (generateRouteKey pg method path)"

definition startsWith :: "string \<Rightarrow> string \<Rightarrow> bool" where
  "startsWith s pre = prefix pre s"

text \<open>
  \<open>clearStarredRoutes\<close> keeps the keys that do not start with
  \<open>${specId}::\<close> and writes them back.
\<close>

definition clearStarredRoutes :: "storage \<Rightarrow> page \<Rightarrow> storage" where
  "clearStarredRoutes st pg =
     (let specId = getSpecIdentifier pg;
          allStarred = getStarredRoutes st;
          filtered = filter (\<lambda>key. \<not> startsWith key (specId @ ''::'')) (Array_from allStarred)
      in Some filtered)"

section \<open>Strings and the engine's tables\<close>

text \<open>
  A string is the list of its code units, and \<open>str_includes\<close> is the
  substring test of \<open>String.prototype.includes\<close>. The Unicode tables of the
  JavaScript engine are not part of the repository; they enter as a
  parameter: \<open>toLowerCase\<close> and \<open>toUpperCase\<close> are
  \<open>String.prototype.toLowerCase\<close> and \<open>String.prototype.toUpperCase\<close>
  (maps of whole strings: a mapping can change the length and depend on the
  neighbours), and \<open>isWhiteSpace\<close> is the class of white space and line
  terminators that \<open>trim\<close> and the regular expression \<open>\s\<close> use.
\<close>

record engine =
  toLowerCase :: "string \<Rightarrow> string"
  toUpperCase :: "string \<Rightarrow> string"
  isWhiteSpace :: "char \<Rightarrow> bool"

definition trim :: "engine \<Rightarrow> string \<Rightarrow> string" where
  "trim E s = rev (dropWhile (isWhiteSpace E) (rev (dropWhile (isWhiteSpace E) s)))"

fun str_includes :: "string \<Rightarrow> string \<Rightarrow> bool" where
  "str_includes [] t = (t = [])"
| "str_includes (c # s) t = (prefix t (c # s) \<or> str_includes s t)"

definition is_alnum :: "char \<Rightarrow> bool" where
  "is_alnum c =
     (let n = (of_char c :: nat)
      in (48 \<le> n \<and> n \<le> 57) \<or> (65 \<le> n \<and> n \<le> 90) \<or> (97 \<le> n \<and> n \<le> 122))"

text \<open>\<open>replace(/[^a-zA-Z0-9-]/g, '-')\<close>\<close>

definition dash_non_alnum :: "string \<Rightarrow> string" where
  "dash_non_alnum s = map (\<lambda>c. if is_alnum c \<or> c = CHR ''-'' then c else CHR ''-'') s"

text \<open>\<open>replace(/\s+/g, '-')\<close>: every maximal run of white space becomes one dash.\<close>

fun dash_spaces_from :: "engine \<Rightarrow> bool \<Rightarrow> string \<Rightarrow> string" where
  "dash_spaces_from E in_run [] = []"
| "dash_spaces_from E in_run (c # s) =
     (if isWhiteSpace E c
      then (if in_run then dash_spaces_from E True s else CHR ''-'' # dash_spaces_from E True s)
      else c # dash_spaces_from E False s)"

definition dash_spaces :: "engine \<Rightarrow> string \<Rightarrow> string" where
  "dash_spaces E s = dash_spaces_from E False s"

text \<open>
  On ASCII text the tables are fixed by the language: the case mappings
  exchange the 26 letters one for one and leave every other character, and
  the white space is tab, line feed, vertical tab, form feed, carriage
  return and space. \<open>ascii_engine\<close> has these tables, counts the no-break
  space U+00A0 as white space (as the language does) and leaves the other
  code units beyond ASCII alone; an engine is \<open>ascii_faithful\<close> when it
  agrees with the tables on ASCII text, as every JavaScript engine does.
\<close>

definition toLowerChar :: "char \<Rightarrow> char" where
  "toLowerChar c =
     (let n = (of_char c :: nat) in if 65 \<le> n \<and> n \<le> 90 then char_of (n + 32) else c)"

definition toUpperChar :: "char \<Rightarrow> char" where
  "toUpperChar c =
     (let n = (of_char c :: nat) in if 97 \<le> n \<and> n \<le> 122 then char_of (n - 32) else c)"

definition is_space :: "char \<Rightarrow> bool" where
  "is_space c = ((of_char c :: nat) \<in> {9, 10, 11, 12, 13, 32, 160})"


definition ascii_engine :: engine where
  "ascii_engine = \<lparr> toLowerCase = map toLowerChar, toUpperCase = map toUpperChar,
     isWhiteSpace = is_space \<rparr>"


section \<open>Host page DOM and the operation extractor (scripts/dom-parser.js)\<close>

text \<open>
  A DOM node is a text node or an element with its tag name, its \<open>id\<close>, the
  tokens of its \<open>class\<close> attribute, its other attributes and its children
  in order. The \<open>document\<close> is the root of the tree.
\<close>

datatype node =
    Text string
  | Element (tag: string) (ident: string) (classes: "string list")
      (attrs: "(string \<times> string) list") (children: "node list")

text \<open>The proper descendants of a node in document order (pre-order).\<close>

fun descendants :: "node \<Rightarrow> node list" where
  "descendants (Text t) = []"
| "descendants (Element tg i cs as ch) = concat (map (\<lambda>c. c # descendants c) ch)"

text \<open>
  The selectors the extension uses: a class (\<open>.opblock\<close>), a tag with a
  substring of its class attribute (\<open>svg[class*="arrow"]\<close>), and a list of
  alternatives (\<open>a, b\<close>). Only elements match.
\<close>

datatype selector =
    ByClass string
  | TagClassContains string string
  | Either selector selector

fun matches :: "selector \<Rightarrow> node \<Rightarrow> bool" where
  "matches sel (Text t) = False"
| "matches (ByClass c) (Element tg i cs as ch) = (c \<in> set cs)"
| "matches (TagClassContains t sub) (Element tg i cs as ch) =
     (tg = t \<and> list_ex (\<lambda>c. str_includes c sub) cs)"
| "matches (Either a b) (Element tg i cs as ch) =
     (matches a (Element tg i cs as ch) \<or> matches b (Element tg i cs as ch))"

definition querySelectorAll :: "selector \<Rightarrow> node \<Rightarrow> node list" where
  "querySelectorAll sel n = filter (matches sel) (descendants n)"

definition querySelector :: "selector \<Rightarrow> node \<Rightarrow> node option" where
  "querySelector sel n = find (matches sel) (descendants n)"

fun textContent :: "node \<Rightarrow> string" where
  "textContent (Text t) = t"
| "textContent (Element tg i cs as ch) = concat (map textContent ch)"

text \<open>The table \<open>SELECTORS\<close>.\<close>

definition SEL_operations :: selector where "SEL_operations = ByClass ''opblock''"
definition SEL_operationTag :: selector where "SEL_operationTag = ByClass ''opblock-tag-section''"
definition SEL_tagHeader :: selector where "SEL_tagHeader = ByClass ''opblock-tag''"
definition SEL_method :: selector where "SEL_method = ByClass ''opblock-summary-method''"
definition SEL_path :: selector where "SEL_path = ByClass ''opblock-summary-path''"
definition SEL_summary :: selector where "SEL_summary = ByClass ''opblock-summary-description''"
definition SEL_operationId :: selector where
  "SEL_operationId = ByClass ''opblock-summary-operation-id''"
definition SEL_deprecated :: selector where "SEL_deprecated = ByClass ''opblock-deprecated''"

text \<open>
  An operation as \<open>parseOperation\<close> builds it; \<open>extractAllOperations\<close> adds
  \<open>tagName\<close> and \<open>tagId\<close> (empty until then). \<open>element\<close> is the operation
  block the record was read from.
\<close>

record operation =
  http_method :: string
  path :: string
  summary :: string
  operationId :: string
  isDeprecated :: bool
  element :: node
  op_id :: string
  tagName :: string
  tagId :: string

definition parseOperation :: "engine \<Rightarrow> node \<Rightarrow> operation option" where
  "parseOperation E opblock =
     (case querySelector SEL_method opblock of
        None \<Rightarrow> None
      | Some methodElement \<Rightarrow>
          (case querySelector SEL_path opblock of
             None \<Rightarrow> None
           | Some pathElement \<Rightarrow>
               (let m = toUpperCase E (trim E (textContent methodElement));
                    p = trim E (textContent pathElement)
                in Some \<lparr>
                  http_method = m,
                  path = p,
                  summary = (case querySelector SEL_summary opblock of
                               Some e \<Rightarrow> trim E (textContent e) | None \<Rightarrow> []),
                  operationId = (case querySelector SEL_operationId opblock of
                               Some e \<Rightarrow> trim E (textContent e) | None \<Rightarrow> []),
                  isDeprecated = (''deprecated'' \<in> set (classes opblock)
                               \<or> querySelector SEL_deprecated opblock \<noteq> None),
                  element = opblock,
                  op_id = (if ident opblock \<noteq> [] then ident opblock
                           else dash_non_alnum (m @ ''-'' @ p)),
                  tagName = [],
                  tagId = [] \<rparr>)))"

record swagger_tag =
  tag_name :: string
  tag_ident :: string
  tag_element :: node

definition extractTags :: "engine \<Rightarrow> node \<Rightarrow> swagger_tag list" where
  "extractTags E document =
     List.map_filter
       (\<lambda>tagElement.
          case querySelector SEL_tagHeader tagElement of
            None \<Rightarrow> None
          | Some tagHeader \<Rightarrow>
              (let nm = trim E (textContent tagHeader)
               in Some \<lparr> tag_name = nm,
                         tag_ident = (if ident tagElement \<noteq> [] then ident tagElement
                                      else ''tag-'' @ dash_spaces E (toLowerCase E nm)),
                         tag_element = tagElement \<rparr>))
       (querySelectorAll SEL_operationTag document)"

definition extractOperationsForTag :: "engine \<Rightarrow> node \<Rightarrow> operation list" where
  "extractOperationsForTag E tagElement =
     List.map_filter (parseOperation E) (querySelectorAll SEL_operations tagElement)"

definition extractAllOperations :: "engine \<Rightarrow> node \<Rightarrow> operation list" where
  "extractAllOperations E document =
     concat (map (\<lambda>tg. map (\<lambda>op. op\<lparr>tagName := tag_name tg, tagId := tag_ident tg\<rparr>)
                          (extractOperationsForTag E (tag_element tg)))
                 (extractTags E document))"

text \<open>
  \<open>findOperationElement\<close> walks \<open>document.querySelectorAll('.opblock')\<close> and
  returns at the first block whose method text (trimmed, upper-cased) equals
  the upper-cased argument and whose path text (trimmed) equals the path. A
  missing sub-element gives \<open>undefined\<close>, which equals no string. The result
  is the element with its position in that list, which tells apart two
  blocks of the same content.
\<close>

definition opMethod :: "engine \<Rightarrow> node \<Rightarrow> string option" where
  "opMethod E op = map_option (\<lambda>e. toUpperCase E (trim E (textContent e))) (querySelector SEL_method op)"

definition opPath :: "engine \<Rightarrow> node \<Rightarrow> string option" where
  "opPath E op = map_option (\<lambda>e. trim E (textContent e)) (querySelector SEL_path op)"

definition findOperationElement :: "engine \<Rightarrow> node \<Rightarrow> string \<Rightarrow> string \<Rightarrow> (nat \<times> node) option" where
  "findOperationElement E document m p =
     find (\<lambda>(i, op). opMethod E op = Some (toUpperCase E m) \<and> opPath E op = Some p)
          (enumerate 0 (querySelectorAll SEL_operations document))"

text \<open>
  A block \<open>renders\<close> the pair (m, p) when the loop of
  \<open>findOperationElement\<close> accepts it for these arguments.
\<close>

definition renders :: "engine \<Rightarrow> node \<Rightarrow> string \<Rightarrow> string \<Rightarrow> bool" where
  "renders E op m p = (opMethod E op = Some (toUpperCase E m) \<and> opPath E op = Some p)"

subsection \<open>An example page\<close>

text \<open>
  Two tag groups; the first holds a well-formed block, a block without a
  path element and another well-formed block, the second repeats
  \<open>GET /pets\<close>.
\<close>

definition example_op :: "string \<Rightarrow> string \<Rightarrow> node" where
  "example_op m p = Element ''div'' [] [''opblock''] []
     [Element ''div'' [] [''opblock-summary''] []
        [Element ''span'' [] [''opblock-summary-method''] [] [Text m],
         Element ''span'' [] [''opblock-summary-path''] [] [Text p]]]"

definition example_broken :: node where
  "example_broken = Element ''div'' [] [''opblock''] []
     [Element ''div'' [] [''opblock-summary''] []
        [Element ''span'' [] [''opblock-summary-method''] [] [Text ''GET'']]]"

definition example_tag :: "string \<Rightarrow> node list \<Rightarrow> node" where
  "example_tag nm ops = Element ''div'' [] [''opblock-tag-section''] []
     (Element ''h3'' [] [''opblock-tag''] [] [Text nm] # ops)"

definition example_doc :: node where
  "example_doc = Element ''body'' [] [] []
     [example_tag ''pets''
        [example_op ''get'' '' /pets '', example_broken, example_op ''post'' ''/pets''],
      example_tag ''store'' [example_op ''GET'' ''/pets'']]"

text \<open>
  A page whose first block has the method text \<open>get\<close> followed by a
  no-break space, and a later block \<open>GET /pets\<close>.
\<close>

definition nbsp_doc :: node where
  "nbsp_doc = Element ''body'' [] [] []
     [example_op (''get'' @ [CHR 0xA0]) ''/pets'', example_op ''GET'' ''/pets'']"

section \<open>Sidebar panel (scripts/sidebar-ui.js)\<close>

text \<open>
  The text an operation is searched in: the template literal of
  \<open>filterOperations\<close> with its line breaks and indentation
  (\<open>combinedText\<close>), put into lower case.
\<close>

definition template_indent :: string where
  "template_indent = CHR 0x0A # replicate 8 (CHR '' '')"

definition combinedText :: "operation \<Rightarrow> string" where
  "combinedText op =
     template_indent @ http_method op @ '' '' @ template_indent @ path op @ '' ''
        @ template_indent @ summary op @ '' '' @ template_indent @ operationId op
        @ CHR 0x0A # replicate 6 (CHR '' '')"

definition searchableText :: "engine \<Rightarrow> operation \<Rightarrow> string" where
  "searchableText E op = toLowerCase E (combinedText op)"

definition filterOperations :: "engine \<Rightarrow> operation list \<Rightarrow> string \<Rightarrow> operation list" where
  "filterOperations E operations term =
     (if term = [] then operations
      else filter (\<lambda>op. str_includes (searchableText E op) term) operations)"


datatype js_error = TypeError

text \<open>
  \<open>groupOperationsByTag\<close> fills a plain object keyed by tag name. A key
  inherited from \<open>Object.prototype\<close> is already truthy, so no group is
  created for it and the \<open>push\<close> on its missing \<open>operations\<close> throws.
  \<open>Object.keys\<close> lists the keys that are array indices first, in
  ascending order, then the others in insertion order. The operations carry
  no \<open>tagDescription\<close>, so every description is empty.
\<close>

type_synonym tag_groups = "(string \<times> operation list \<times> string) list"

definition prototype_keys :: "string list" where
  "prototype_keys = [''constructor'', ''__proto__'', ''__defineGetter__'', ''__defineSetter__'',
     ''__lookupGetter__'', ''__lookupSetter__'', ''hasOwnProperty'', ''isPrototypeOf'',
     ''propertyIsEnumerable'', ''toLocaleString'', ''toString'', ''valueOf'']"

fun push_operation :: "tag_groups \<Rightarrow> string \<Rightarrow> operation \<Rightarrow> tag_groups" where
  "push_operation [] tg op = [(tg, [op], [])]"
| "push_operation ((k, ops, d) # rest) tg op =
     (if k = tg then (k, ops @ [op], d) # rest else (k, ops, d) # push_operation rest tg op)"

fun groupOperationsByTag_from :: "tag_groups \<Rightarrow> operation list \<Rightarrow> js_error + tag_groups" where
  "groupOperationsByTag_from grouped [] = Inr grouped"
| "groupOperationsByTag_from grouped (op # rest) =
     (let tg = (if tagName op \<noteq> [] then tagName op else ''Untagged'')
      in if tg \<in> set prototype_keys then Inl TypeError
         else groupOperationsByTag_from (push_operation grouped tg op) rest)"

definition groupOperationsByTag :: "operation list \<Rightarrow> js_error + tag_groups" where
  "groupOperationsByTag operations = groupOperationsByTag_from [] operations"

definition is_digit :: "char \<Rightarrow> bool" where
  "is_digit c = (let n = (of_char c :: nat) in 48 \<le> n \<and> n \<le> 57)"

definition nat_of_digits :: "string \<Rightarrow> nat" where
  "nat_of_digits s = foldl (\<lambda>n c. 10 * n + (of_char c - 48)) 0 s"

definition is_array_index :: "string \<Rightarrow> bool" where
  "is_array_index s =
     (s \<noteq> [] \<and> list_all is_digit s \<and> (s = ''0'' \<or> hd s \<noteq> CHR ''0'')
      \<and> nat_of_digits s < 4294967295)"

definition Object_keys :: "tag_groups \<Rightarrow> string list" where
  "Object_keys grouped =
     (let ks = map fst grouped
      in sort_key nat_of_digits (filter is_array_index ks)
         @ filter (\<lambda>k. \<not> is_array_index k) ks)"

text \<open>
  What the sidebar shows: the children of \<open>#swagger-nav-list\<close> after a
  render. A section carries its class list, the \<open>data-tag-id\<close> of its
  header, its title, its count, its description and its operation items.
  The class lists are fixed text of the templates. The titles,
  descriptions, summaries and data attributes are the strings the templates
  interpolate, kept as they are: markup inside such a string is not parsed,
  so for these fields the model is the rendered list when the strings hold
  no markup.
\<close>

record operation_item =
  item_deprecated :: bool
  data_method :: string
  data_path :: string
  item_summary :: "string option"
  star_starred :: bool

datatype list_item =
    TagSection (section_classes: "string list") (data_tag_id: string) (tag_title: string)
      (tag_count: nat) (tag_description: string) (tag_operations: "operation_item list")
  | EmptyState
  | LoadingState

text \<open>
  The module state of the sidebar. \<open>sidebarElement\<close> is \<open>None\<close> before
  \<open>init\<close> and after \<open>destroy\<close>; otherwise it holds the rendered list.
\<close>

record sidebar =
  sidebarElement :: "list_item list option"
  isCollapsed :: bool
  searchTerm :: string
  allOperations :: "operation list"
  starredRouteKeys :: js_set

definition renderOperation :: "page \<Rightarrow> js_set \<Rightarrow> operation \<Rightarrow> bool \<Rightarrow> operation_item" where
  "renderOperation pg starred op isInStarredSection =
     \<lparr> item_deprecated = isDeprecated op,
       data_method = http_method op,
       data_path = path op,
       item_summary = (if summary op \<noteq> [] then Some (summary op) else None),
       star_starred = Set_has starred (generateRouteKey pg (http_method op) (path op)) \<rparr>"

definition renderStarredSection :: "page \<Rightarrow> js_set \<Rightarrow> operation list \<Rightarrow> list_item" where
  "renderStarredSection pg starred starredOps =
     TagSection [''tag-section'', ''starred-section''] ''starred'' ''Starred Routes''
       (length starredOps) [] (map (\<lambda>op. renderOperation pg starred op True) starredOps)"

definition renderTag :: "engine \<Rightarrow> page \<Rightarrow> js_set \<Rightarrow> string \<Rightarrow> operation list \<Rightarrow> string \<Rightarrow> list_item" where
  "renderTag E pg starred tg operations tagDescription =
     TagSection [''tag-section'', ''collapsed''] (''tag-'' @ dash_spaces E (toLowerCase E tg)) tg
       (length operations) tagDescription
       (map (\<lambda>op. renderOperation pg starred op False) operations)"

definition renderOperations :: "engine \<Rightarrow> page \<Rightarrow> sidebar \<Rightarrow> js_error + sidebar" where
  "renderOperations E pg sb =
     (case sidebarElement sb of
        None \<Rightarrow> Inl TypeError
      | Some old \<Rightarrow>
          (let filteredOps = filterOperations E (allOperations sb) (searchTerm sb)
           in case groupOperationsByTag filteredOps of
                Inl e \<Rightarrow> Inl e
              | Inr groupedByTag \<Rightarrow>
                  (let starredOps = filter (\<lambda>op. Set_has (starredRouteKeys sb)
                                        (generateRouteKey pg (http_method op) (path op))) filteredOps;
                       html = (if starredOps \<noteq> []
                               then [renderStarredSection pg (starredRouteKeys sb) starredOps]
                               else [])
                              @ map (\<lambda>tg. case map_of groupedByTag tg of
                                            Some (ops, d) \<Rightarrow> renderTag E pg (starredRouteKeys sb) tg ops d
                                          | None \<Rightarrow> renderTag E pg (starredRouteKeys sb) tg [] [])
                                    (Object_keys groupedByTag)
                   in Inr (sb\<lparr>sidebarElement :=
                             Some (if html = [] then [EmptyState] else html)\<rparr>))))"

text \<open>
  \<open>refreshOperations\<close> reads the operations off the page and the starred
  set off the store, then renders.
\<close>

definition refreshOperations :: "engine \<Rightarrow> node \<Rightarrow> storage \<Rightarrow> page \<Rightarrow> sidebar \<Rightarrow> js_error + sidebar" where
  "refreshOperations E document st pg sb =
     renderOperations E pg (sb\<lparr>allOperations := extractAllOperations E document,
                            starredRouteKeys := getStarredRoutes st\<rparr>)"

text \<open>
  The click listener of a tag header: \<open>classList.toggle('collapsed')\<close> on
  the section of the header. \<open>click_tag_header i\<close> is a click on the header
  of the i-th child of the list.
\<close>

definition classList_toggle :: "string list \<Rightarrow> string \<Rightarrow> string list" where
  "classList_toggle cs c = (if c \<in> set cs then filter (\<lambda>x. x \<noteq> c) cs else cs @ [c])"

fun toggle_section :: "list_item \<Rightarrow> list_item" where
  "toggle_section (TagSection cs i t n d ops) =
     TagSection (classList_toggle cs ''collapsed'') i t n d ops"
| "toggle_section EmptyState = EmptyState"
| "toggle_section LoadingState = LoadingState"

definition click_tag_header :: "nat \<Rightarrow> sidebar \<Rightarrow> sidebar" where
  "click_tag_header i sb =
     (case sidebarElement sb of
        None \<Rightarrow> sb
      | Some items \<Rightarrow>
          (if i < length items
           then sb\<lparr>sidebarElement := Some (items[i := toggle_section (items ! i)])\<rparr>
           else sb))"

definition is_expanded :: "list_item \<Rightarrow> bool" where
  "is_expanded it = (case it of TagSection cs i t n d ops \<Rightarrow> ''collapsed'' \<notin> set cs
                     | _ \<Rightarrow> False)"

definition is_starred_section :: "list_item \<Rightarrow> bool" where
  "is_starred_section it = (case it of TagSection cs i t n d ops \<Rightarrow> ''starred-section'' \<in> set cs
                     | _ \<Rightarrow> False)"

definition is_tag_section :: "list_item \<Rightarrow> bool" where
  "is_tag_section it = (case it of TagSection cs i t n d ops \<Rightarrow> ''starred-section'' \<notin> set cs
                     | _ \<Rightarrow> False)"

text \<open>The sidebar right after \<open>createSidebar\<close>, before the first render.\<close>

definition created_sidebar :: sidebar where
  "created_sidebar = \<lparr> sidebarElement = Some [LoadingState], isCollapsed = False, searchTerm = [],
     allOperations = [], starredRouteKeys = [] \<rparr>"

text \<open>The two operations of the filter example.\<close>

definition example_operation :: "string \<Rightarrow> string \<Rightarrow> string \<Rightarrow> string \<Rightarrow> operation" where
  "example_operation m p sm oid = \<lparr> http_method = m, path = p, summary = sm, operationId = oid,
     isDeprecated = False, element = example_op m p, op_id = dash_non_alnum (m @ ''-'' @ p),
     tagName = ''pets'', tagId = ''tag-pets'' \<rparr>"

definition example_operations :: "operation list" where
  "example_operations = [example_operation ''GET'' ''/pets'' [] [],
                         example_operation ''POST'' ''/pets'' ''Create a pet'' []]"

text \<open>An example page state and a sidebar with one starred route.\<close>

definition example_page :: page where
  "example_page = \<lparr>title = ''Petstore'', pathname = ''/docs''\<rparr>"

definition rendered_items :: "js_error + sidebar \<Rightarrow> list_item list" where
  "rendered_items r = (case r of Inl e \<Rightarrow> []
                       | Inr sb \<Rightarrow> (case sidebarElement sb of None \<Rightarrow> [] | Some items \<Rightarrow> items))"

definition example_sidebar :: sidebar where
  "example_sidebar = created_sidebar\<lparr>allOperations := example_operations,
     starredRouteKeys := [''Petstore::POST::/pets'']\<rparr>"

section \<open>Mutation handler: observation and debounce\<close>

text \<open>
  A \<open>MutationRecord\<close> as \<open>handleMutations\<close> reads it: its added nodes.
  \<open>shouldReinit\<close> is the flag the loops of \<open>handleMutations\<close> compute: a
  batch qualifies when some added node is an element that is an operation
  block or a tag section, or has an operation block below it; the handler
  then arms the debounce timer.
\<close>

record mutation =
  addedNodes :: "node list"

fun is_element :: "node \<Rightarrow> bool" where
  "is_element (Text t) = False"
| "is_element (Element tg i cs as ch) = True"

definition shouldReinit :: "mutation list \<Rightarrow> bool" where
  "shouldReinit mutations =
     list_ex (\<lambda>mutation.
        list_ex (\<lambda>n. is_element n
                   \<and> (matches (Either (ByClass ''opblock'') (ByClass ''opblock-tag-section'')) n
                      \<or> querySelector (ByClass ''opblock'') n \<noteq> None))
                (addedNodes mutation))
        mutations"

text \<open>
  The handler's variables (\<open>observer\<close>, \<open>isInitialized\<close>,
  \<open>debounceTimer\<close>) with the part of the browser they act on: the clock
  in milliseconds, the pending timeouts (identifier and due time, all set
  by \<open>debouncedReinit\<close>), whether \<open>window.SidebarUI\<close> is defined (the
  script of the sidebar defines it), and the times at which
  \<open>injectStarsIntoOperations\<close> and \<open>SidebarUI.refreshOperations\<close> were
  called. \<open>observer\<close> is true while the MutationObserver is connected.
\<close>

record world =
  clock :: nat
  timers :: "(nat \<times> nat) list"
  next_timer :: nat
  observer :: bool
  isInitialized :: bool
  debounceTimer :: "nat option"
  sidebarUI :: bool
  injections :: "nat list"
  refreshes :: "nat list"

definition DEBOUNCE_DELAY :: nat where
  "DEBOUNCE_DELAY = 300"

definition clearTimeout :: "nat option \<Rightarrow> world \<Rightarrow> world" where
  "clearTimeout t w =
     (case t of None \<Rightarrow> w
      | Some i \<Rightarrow> w\<lparr>timers := filter (\<lambda>(j, due). j \<noteq> i) (timers w)\<rparr>)"

definition setTimeout :: "nat \<Rightarrow> world \<Rightarrow> nat \<times> world" where
  "setTimeout delay w =
     (next_timer w,
      w\<lparr>timers := timers w @ [(next_timer w, clock w + delay)],
        next_timer := Suc (next_timer w)\<rparr>)"

text \<open>The callback of the debounce timer.\<close>

definition reconcile :: "world \<Rightarrow> world" where
  "reconcile w =
     (let w1 = w\<lparr>injections := injections w @ [clock w]\<rparr>
      in if sidebarUI w1 then w1\<lparr>refreshes := refreshes w1 @ [clock w1]\<rparr> else w1)"

definition debouncedReinit :: "world \<Rightarrow> world" where
  "debouncedReinit w =
     (let (t, w') = setTimeout DEBOUNCE_DELAY (clearTimeout (debounceTimer w) w)
      in w'\<lparr>debounceTimer := Some t\<rparr>)"

definition handleMutations :: "mutation list \<Rightarrow> world \<Rightarrow> world" where
  "handleMutations mutations w = (if shouldReinit mutations then debouncedReinit w else w)"

definition init :: "world \<Rightarrow> world" where
  "init w =
     (if isInitialized w then w
      else w\<lparr>observer := True, injections := injections w @ [clock w], isInitialized := True\<rparr>)"

definition destroy :: "world \<Rightarrow> world" where
  "destroy w = w\<lparr>observer := False, isInitialized := False\<rparr>"

text \<open>
  Time passes to \<open>t\<close>: the timeouts due by then run in the order of their
  due times, each at its due time. Events occur at given times; a batch of
  mutations reaches the handler only while the observer is connected.
\<close>

definition fire :: "world \<Rightarrow> nat \<times> nat \<Rightarrow> world" where
  "fire w t =
     reconcile (w\<lparr>clock := max (clock w) (snd t),
                 timers := filter (\<lambda>(j, due). j \<noteq> fst t) (timers w)\<rparr>)"

definition advance :: "nat \<Rightarrow> world \<Rightarrow> world" where
  "advance t w =
     (let w' = foldl fire w (sort_key snd (filter (\<lambda>(i, due). due \<le> t) (timers w)))
      in w'\<lparr>clock := max (clock w') t\<rparr>)"

datatype event = Mutations "mutation list" | Destroy | Init

fun occur :: "event \<Rightarrow> world \<Rightarrow> world" where
  "occur (Mutations ms) w = (if observer w then handleMutations ms w else w)"
| "occur Destroy w = destroy w"
| "occur Init w = init w"

fun run_trace :: "(nat \<times> event) list \<Rightarrow> world \<Rightarrow> world" where
  "run_trace [] w = w"
| "run_trace ((t, e) # rest) w = run_trace rest (occur e (advance t w))"

text \<open>
  \<open>rapid prev ms\<close>: every batch of \<open>ms\<close> qualifies and arrives less than
  the debounce delay after the one before it (the first after \<open>prev\<close>).
\<close>

fun rapid :: "nat \<Rightarrow> (nat \<times> mutation list) list \<Rightarrow> bool" where
  "rapid prev [] = True"
| "rapid prev ((t, ms) # rest) =
     (prev \<le> t \<and> t < prev + DEBOUNCE_DELAY \<and> shouldReinit ms \<and> rapid t rest)"

text \<open>
  \<open>armed t w\<close>: the handler is in the state pending-reconcile, its debounce
  timer set at time \<open>t\<close> and the only timer pending.
\<close>

definition armed :: "nat \<Rightarrow> world \<Rightarrow> bool" where
  "armed t w = (case debounceTimer w of
                  None \<Rightarrow> False
                | Some i \<Rightarrow> timers w = [(i, t + DEBOUNCE_DELAY)] \<and> clock w = t)"

definition burst_events :: "(nat \<times> mutation list) list \<Rightarrow> (nat \<times> event) list" where
  "burst_events ms = map (\<lambda>(t, m). (t, Mutations m)) ms"

definition blank_world :: world where
  "blank_world = \<lparr> clock = 0, timers = [], next_timer = 1, observer = False,
     isInitialized = False, debounceTimer = None, sidebarUI = True,
     injections = [], refreshes = [] \<rparr>"

definition example_mutation :: mutation where
  "example_mutation = \<lparr> addedNodes = [example_op ''GET'' ''/pets''] \<rparr>"

section \<open>Mutation handler: star injection\<close>

text \<open>The selectors of the injection.\<close>

definition SEL_star :: selector where "SEL_star = ByClass ''swagger-nav-star''"
definition SEL_summary_region :: selector where "SEL_summary_region = ByClass ''opblock-summary''"
definition SEL_expand :: selector where
  "SEL_expand = Either (ByClass ''opblock-summary-control'') (TagClassContains ''svg'' ''arrow'')"

text \<open>
  \<open>createStarButton\<close>: the button with its class list, its title, its data
  attributes and the nodes its \<open>innerHTML\<close> parses to.
\<close>

definition star_points :: string where
  "star_points = ''12 2 15.09 8.26 22 9.27 17 14.14 18.18 21.02 12 17.77 5.82 21.02 7 14.14 2 9.27 8.91 8.26 12 2''"

definition createStarButton :: "string \<Rightarrow> string \<Rightarrow> bool \<Rightarrow> node" where
  "createStarButton m p starred =
     Element ''button'' []
       (''swagger-nav-star'' # (if starred then [''starred''] else []))
       [(''title'', if starred then ''Unstar this route'' else ''Star this route''),
        (''data-method'', m), (''data-path'', p)]
       [Text (CHR 0x0A # replicate 6 (CHR '' '')),
        Element ''svg'' [] []
          [(''width'', ''20''), (''height'', ''20''), (''viewBox'', ''0 0 24 24''),
           (''fill'', if starred then ''currentColor'' else ''none''),
           (''stroke'', ''currentColor''), (''stroke-width'', ''2''),
           (''stroke-linecap'', ''round''), (''stroke-linejoin'', ''round'')]
          [Text (CHR 0x0A # replicate 8 (CHR '' '')),
           Element ''polygon'' [] [] [(''points'', star_points)] [],
           Text (CHR 0x0A # replicate 6 (CHR '' ''))],
        Text (CHR 0x0A # replicate 4 (CHR '' ''))]"

text \<open>
  Insertion into the tree. \<open>replace_first P f n\<close> is \<open>n\<close> with its first
  descendant in document order that satisfies \<open>P\<close> replaced, among the
  children of its parent, by the nodes \<open>f\<close> gives for it; \<open>n\<close> itself when
  no descendant does. \<open>parent.insertBefore(star, e)\<close> replaces \<open>e\<close> by
  \<open>star, e\<close>.
\<close>

fun replace_first :: "(node \<Rightarrow> bool) \<Rightarrow> (node \<Rightarrow> node list) \<Rightarrow> node \<Rightarrow> node"
and replace_first_in :: "(node \<Rightarrow> bool) \<Rightarrow> (node \<Rightarrow> node list) \<Rightarrow> node list \<Rightarrow> node list" where
  "replace_first P f (Text t) = Text t"
| "replace_first P f (Element tg i cs as ch) = Element tg i cs as (replace_first_in P f ch)"
| "replace_first_in P f [] = []"
| "replace_first_in P f (c # rest) =
     (if P c then f c @ rest
      else if list_ex P (descendants c) then replace_first P f c # rest
      else c # replace_first_in P f rest)"

fun appendChild :: "node \<Rightarrow> node \<Rightarrow> node" where
  "appendChild (Text t) c = Text t"
| "appendChild (Element tg i cs as ch) c = Element tg i cs as (ch @ [c])"

text \<open>
  The body of the \<open>forEach\<close> of \<open>injectStarsIntoOperations\<close> on one
  operation block: the block afterwards.
\<close>

definition injectStar :: "engine \<Rightarrow> js_set \<Rightarrow> page \<Rightarrow> node \<Rightarrow> node" where
  "injectStar E starredRoutes pg opBlock =
     (if querySelector SEL_star opBlock \<noteq> None then opBlock
      else case parseOperation E opBlock of
        None \<Rightarrow> opBlock
      | Some operation \<Rightarrow>
          (let routeKey = generateRouteKey pg (http_method operation) (path operation);
               starred = Set_has starredRoutes routeKey;
               starButton = createStarButton (http_method operation) (path operation) starred
           in replace_first (matches SEL_summary_region)
                (\<lambda>summaryEl.
                   [if querySelector SEL_expand summaryEl \<noteq> None
                    then replace_first (matches SEL_expand)
                           (\<lambda>expandButton. [starButton, expandButton]) summaryEl
                    else appendChild summaryEl starButton])
                opBlock))"

text \<open>
  The \<open>forEach\<close> runs over the operation blocks found before the loop, in
  document order, each on the tree as the blocks before it left it. A block
  changes nothing outside itself, so the loop is a descent: an operation
  block is treated first, then the blocks below it in the tree it now has
  (the inserted button holds none). \<open>injectStars_at\<close> does this for a node
  and what lies below it; \<open>injectStarsIntoOperations\<close> for the elements of
  the document, with the starred set read from the store.
\<close>

function injectStars_at :: "engine \<Rightarrow> js_set \<Rightarrow> page \<Rightarrow> node \<Rightarrow> node" where
  "injectStars_at E S pg n =
     (case (if matches SEL_operations n then injectStar E S pg n else n) of
        Text t \<Rightarrow> Text t
      | Element tg i cs as ch \<Rightarrow> Element tg i cs as (map (injectStars_at E S pg) ch))"
  by pat_completeness auto

definition injectStarsIntoOperations :: "engine \<Rightarrow> storage \<Rightarrow> page \<Rightarrow> node \<Rightarrow> node" where
  "injectStarsIntoOperations E st pg document =
     (case document of
        Text t \<Rightarrow> Text t
      | Element tg i cs as ch \<Rightarrow>
          Element tg i cs as (map (injectStars_at E (getStarredRoutes st) pg) ch))"

text \<open>The number of nodes matching a selector among a node and its descendants.\<close>

definition count_in :: "selector \<Rightarrow> node \<Rightarrow> nat" where
  "count_in sel n = length (filter (matches sel) (n # descendants n))"

text \<open>
  A block is \<open>eligible\<close> when the loop body inserts a button into it, and
  \<open>well_formed\<close> when it has a method, a path and a summary element;
  \<open>star_controls\<close> counts the star controls in it. In a document that is
  \<open>not_nested\<close> no operation block lies inside another.
\<close>

definition eligible :: "engine \<Rightarrow> node \<Rightarrow> bool" where
  "eligible E opBlock = (querySelector SEL_star opBlock = None
     \<and> parseOperation E opBlock \<noteq> None
     \<and> querySelector SEL_summary_region opBlock \<noteq> None)"

definition well_formed :: "node \<Rightarrow> bool" where
  "well_formed b = (querySelector SEL_method b \<noteq> None \<and> querySelector SEL_path b \<noteq> None
     \<and> querySelector SEL_summary_region b \<noteq> None)"

definition star_controls :: "node \<Rightarrow> nat" where
  "star_controls b = length (querySelectorAll SEL_star b)"

definition not_nested :: "node \<Rightarrow> bool" where
  "not_nested document =
     list_all (\<lambda>b. querySelectorAll SEL_operations b = [])
       (querySelectorAll SEL_operations document)"

definition blocks_from :: "node \<Rightarrow> node list" where
  "blocks_from n = filter (matches SEL_operations) (n # descendants n)"

text \<open>An operation block with another one inside it, and a store.\<close>

definition nested_doc :: node where
  "nested_doc = Element ''body'' [] [] []
     [Element ''div'' [] [''opblock''] []
        [Element ''div'' [] [''opblock-summary''] []
           [Element ''span'' [] [''opblock-summary-method''] [] [Text ''GET''],
            Element ''span'' [] [''opblock-summary-path''] [] [Text ''/a'']],
         example_op ''POST'' ''/b'']]"

definition example_store :: storage where
  "example_store = Some [''Petstore::GET::/pets'']"

section \<open>Properties of the bookmark store\<close>

lemma Set_add_distinct: "distinct s \<Longrightarrow> distinct (Set_add s k)"
  by (simp add: Set_add_def Set_has_def)

lemma Set_add_set: "set (Set_add s k) = insert k (set s)"
  by (auto simp: Set_add_def Set_has_def)

lemma foldl_Set_add_distinct: "distinct acc \<Longrightarrow> distinct (foldl Set_add acc xs)"
  by (induction xs arbitrary: acc) (simp_all add: Set_add_distinct)

lemma foldl_Set_add_set: "set (foldl Set_add acc xs) = set acc \<union> set xs"
  by (induction xs arbitrary: acc) (simp_all add: Set_add_set)

lemma foldl_Set_add_absorb:
  "set xs \<subseteq> set acc \<Longrightarrow> foldl Set_add acc xs = acc"
  by (induction xs arbitrary: acc) (simp_all add: Set_add_def Set_has_def)

lemma foldl_Set_add_fresh:
  "distinct xs \<Longrightarrow> set xs \<inter> set acc = {} \<Longrightarrow> foldl Set_add acc xs = acc @ xs"
proof (induction xs arbitrary: acc)
  case Nil
  then show ?case by simp
next
  case (Cons x xs)
  from Cons.prems have fresh: "x \<notin> set acc" by auto
  then have step: "Set_add acc x = acc @ [x]"
    by (simp add: Set_add_def Set_has_def)
  from Cons.prems have "distinct xs" and "set xs \<inter> set (acc @ [x]) = {}" by auto
  then have "foldl Set_add (acc @ [x]) xs = (acc @ [x]) @ xs" by (rule Cons.IH)
  with step show ?case by simp
qed

lemma new_Set_distinct: "distinct (new_Set xs)"
  by (simp add: new_Set_def foldl_Set_add_distinct)

lemma new_Set_set: "set (new_Set xs) = set xs"
  by (simp add: new_Set_def foldl_Set_add_set)

lemma new_Set_of_distinct: "distinct xs \<Longrightarrow> new_Set xs = xs"
  using foldl_Set_add_fresh [of xs "[]"] by (simp add: new_Set_def)

lemma getStarredRoutes_distinct: "distinct (getStarredRoutes st)"
  by (simp add: getStarredRoutes_def new_Set_distinct)

lemma getStarredRoutes_Some_distinct:
  "distinct xs \<Longrightarrow> getStarredRoutes (Some xs) = xs"
  by (simp add: getStarredRoutes_def new_Set_of_distinct)

lemma filter_neq_append_fresh:
  "k \<notin> set s \<Longrightarrow> filter (\<lambda>x. x \<noteq> k) (s @ [k]) = s"
  by (induction s) auto

lemma append_sep_cancel:
  "c \<notin> set a \<Longrightarrow> c \<notin> set b \<Longrightarrow> a @ c # r = b @ c # s \<Longrightarrow> a = b \<and> r = s"
proof (induction a arbitrary: b)
  case Nil
  then show ?case by (cases b) auto
next
  case (Cons x a)
  then show ?case by (cases b) auto
qed

text \<open>
  C5 as stated fails: two different documents with the same title, here at
  two different URL paths, get the same key for \<open>GET /pets\<close>.
\<close>

theorem generateRouteKey_same_title_counterexample:
  "\<lparr>title = ''Petstore'', pathname = ''/v1/docs''\<rparr>
      \<noteq> \<lparr>title = ''Petstore'', pathname = ''/v2/docs''\<rparr>
   \<and> generateRouteKey \<lparr>title = ''Petstore'', pathname = ''/v1/docs''\<rparr> ''GET'' ''/pets''
     = generateRouteKey \<lparr>title = ''Petstore'', pathname = ''/v2/docs''\<rparr> ''GET'' ''/pets''"
  by (simp add: generateRouteKey_def getSpecIdentifier_def)

text \<open>
  C5, amended. The route key is a function of the specIdentifier, the
  method and the path, so repeated calls agree. The specIdentifier is the
  title of the document when that is set and is not \<open>Swagger UI\<close>, else
  its URL path, else \<open>default-spec\<close>. For the same method and path two
  documents get the same key exactly when their specIdentifiers are equal:
  two documents with titles of their own get different keys when the
  titles differ and share every key when the titles are equal, and two
  documents without a title of their own do so by their URL paths. Under
  one specIdentifier a different method (same path) or a different path
  (same method) gives a different key, and when the methods hold no colon
  (no HTTP method does) any two different (method, path) pairs do.
\<close>

theorem generateRouteKey_collision_free:
  "(generateRouteKey pg1 m p = generateRouteKey pg2 m p
      \<longleftrightarrow> getSpecIdentifier pg1 = getSpecIdentifier pg2)
   \<and> (title pg \<noteq> [] \<and> title pg \<noteq> ''Swagger UI'' \<longrightarrow> getSpecIdentifier pg = title pg)
   \<and> ((title pg = [] \<or> title pg = ''Swagger UI'') \<and> pathname pg \<noteq> []
        \<longrightarrow> getSpecIdentifier pg = pathname pg)
   \<and> ((title pg = [] \<or> title pg = ''Swagger UI'') \<and> pathname pg = []
        \<longrightarrow> getSpecIdentifier pg = ''default-spec'')
   \<and> (title pg1 \<noteq> [] \<and> title pg1 \<noteq> ''Swagger UI''
        \<and> title pg2 \<noteq> [] \<and> title pg2 \<noteq> ''Swagger UI'' \<longrightarrow>
        (generateRouteKey pg1 m p = generateRouteKey pg2 m p \<longleftrightarrow> title pg1 = title pg2))
   \<and> ((title pg1 = [] \<or> title pg1 = ''Swagger UI'') \<and> pathname pg1 \<noteq> []
        \<and> (title pg2 = [] \<or> title pg2 = ''Swagger UI'') \<and> pathname pg2 \<noteq> [] \<longrightarrow>
        (generateRouteKey pg1 m p = generateRouteKey pg2 m p
           \<longleftrightarrow> pathname pg1 = pathname pg2))
   \<and> (m1 \<noteq> m2 \<longrightarrow> generateRouteKey pg m1 p \<noteq> generateRouteKey pg m2 p)
   \<and> (p1 \<noteq> p2 \<longrightarrow> generateRouteKey pg m p1 \<noteq> generateRouteKey pg m p2)
   \<and> (CHR '':'' \<notin> set m1 \<and> CHR '':'' \<notin> set m2 \<and> (m1 \<noteq> m2 \<or> p1 \<noteq> p2) \<longrightarrow>
      generateRouteKey pg m1 p1 \<noteq> generateRouteKey pg m2 p2)"
proof -
  have sep: "generateRouteKey pg m1 p1 = generateRouteKey pg m2 p2 \<Longrightarrow>
      CHR '':'' \<notin> set m1 \<Longrightarrow> CHR '':'' \<notin> set m2 \<Longrightarrow> m1 = m2 \<and> p1 = p2"
  proof -
    assume eq: "generateRouteKey pg m1 p1 = generateRouteKey pg m2 p2"
      and c1: "CHR '':'' \<notin> set m1" and c2: "CHR '':'' \<notin> set m2"
    from eq have "m1 @ CHR '':'' # (CHR '':'' # p1) = m2 @ CHR '':'' # (CHR '':'' # p2)"
      by (simp add: generateRouteKey_def)
    from append_sep_cancel [OF c1 c2 this] show ?thesis by simp
  qed
  have key: "generateRouteKey a m p = generateRouteKey b m p
      \<longleftrightarrow> getSpecIdentifier a = getSpecIdentifier b" for a b
    by (simp add: generateRouteKey_def)
  have spec: "(title pg \<noteq> [] \<and> title pg \<noteq> ''Swagger UI'' \<longrightarrow> getSpecIdentifier pg = title pg)
      \<and> ((title pg = [] \<or> title pg = ''Swagger UI'') \<and> pathname pg \<noteq> []
        \<longrightarrow> getSpecIdentifier pg = pathname pg)
      \<and> ((title pg = [] \<or> title pg = ''Swagger UI'') \<and> pathname pg = []
        \<longrightarrow> getSpecIdentifier pg = ''default-spec'')" for pg
    by (auto simp: getSpecIdentifier_def)
  have titles: "title pg1 \<noteq> [] \<and> title pg1 \<noteq> ''Swagger UI''
        \<and> title pg2 \<noteq> [] \<and> title pg2 \<noteq> ''Swagger UI'' \<longrightarrow>
        (generateRouteKey pg1 m p = generateRouteKey pg2 m p \<longleftrightarrow> title pg1 = title pg2)"
    unfolding key by (simp add: getSpecIdentifier_def)
  have paths: "(title pg1 = [] \<or> title pg1 = ''Swagger UI'') \<and> pathname pg1 \<noteq> []
        \<and> (title pg2 = [] \<or> title pg2 = ''Swagger UI'') \<and> pathname pg2 \<noteq> [] \<longrightarrow>
        (generateRouteKey pg1 m p = generateRouteKey pg2 m p
           \<longleftrightarrow> pathname pg1 = pathname pg2)"
    unfolding key by (auto simp: getSpecIdentifier_def)
  have within: "(m1 \<noteq> m2 \<longrightarrow> generateRouteKey pg m1 p \<noteq> generateRouteKey pg m2 p)
      \<and> (p1 \<noteq> p2 \<longrightarrow> generateRouteKey pg m p1 \<noteq> generateRouteKey pg m p2)
      \<and> (CHR '':'' \<notin> set m1 \<and> CHR '':'' \<notin> set m2 \<and> (m1 \<noteq> m2 \<or> p1 \<noteq> p2) \<longrightarrow>
          generateRouteKey pg m1 p1 \<noteq> generateRouteKey pg m2 p2)"
    using sep by (auto simp: generateRouteKey_def)
  from key [of pg1 pg2] spec [of pg] titles paths within show ?thesis by (intro conjI) blast+
qed

theorem generateRouteKey_collision_free_witness:
  "generateRouteKey \<lparr>title = ''Petstore'', pathname = ''/docs''\<rparr> ''GET'' ''/pets''
     \<noteq> generateRouteKey \<lparr>title = ''Orders'', pathname = ''/docs''\<rparr> ''GET'' ''/pets''
   \<and> generateRouteKey \<lparr>title = ''Petstore'', pathname = ''/docs''\<rparr> ''GET'' ''/pets''
     = generateRouteKey \<lparr>title = ''Petstore'', pathname = ''/other''\<rparr> ''GET'' ''/pets''
   \<and> generateRouteKey \<lparr>title = ''Swagger UI'', pathname = ''/a/docs''\<rparr> ''GET'' ''/pets''
     \<noteq> generateRouteKey \<lparr>title = [], pathname = ''/b/docs''\<rparr> ''GET'' ''/pets''
   \<and> getSpecIdentifier \<lparr>title = ''Petstore'', pathname = ''/docs''\<rparr> = ''Petstore''
   \<and> getSpecIdentifier \<lparr>title = ''Swagger UI'', pathname = ''/a/docs''\<rparr> = ''/a/docs''
   \<and> getSpecIdentifier \<lparr>title = ''Swagger UI'', pathname = []\<rparr> = ''default-spec''
   \<and> generateRouteKey \<lparr>title = ''Petstore'', pathname = ''/docs''\<rparr> ''GET'' ''/pets''
     \<noteq> generateRouteKey \<lparr>title = ''Petstore'', pathname = ''/docs''\<rparr> ''POST'' ''/pets''
   \<and> generateRouteKey \<lparr>title = ''Petstore'', pathname = ''/docs''\<rparr> ''GET'' ''/pets''
     \<noteq> generateRouteKey \<lparr>title = ''Petstore'', pathname = ''/docs''\<rparr> ''GET'' ''/users''
   \<and> generateRouteKey \<lparr>title = ''Petstore'', pathname = ''/docs''\<rparr> ''GET'' ''/pets''
     \<noteq> generateRouteKey \<lparr>title = ''Petstore'', pathname = ''/docs''\<rparr> ''POST'' ''/users''
   \<and> generateRouteKey \<lparr>title = ''Petstore'', pathname = ''/docs''\<rparr> ''GET'' ''/pets''
     = ''Petstore::GET::/pets''"
proof -
  let ?pet = "\<lparr>title = ''Petstore'', pathname = ''/docs''\<rparr>"
  let ?ord = "\<lparr>title = ''Orders'', pathname = ''/docs''\<rparr>"
  let ?oth = "\<lparr>title = ''Petstore'', pathname = ''/other''\<rparr>"
  let ?sa = "\<lparr>title = ''Swagger UI'', pathname = ''/a/docs''\<rparr>"
  let ?sb = "\<lparr>title = [], pathname = ''/b/docs''\<rparr>"
  let ?sd = "\<lparr>title = ''Swagger UI'', pathname = []\<rparr>"
  note within = generateRouteKey_collision_free
    [of ?pet "''GET''" "''/pets''" ?ord ?pet "''GET''" "''POST''" "''/pets''" "''/users''"]
  note same = generateRouteKey_collision_free
    [of ?pet "''GET''" "''/pets''" ?oth ?sa "''GET''" "''POST''" "''/pets''" "''/users''"]
  note urls = generateRouteKey_collision_free
    [of ?sa "''GET''" "''/pets''" ?sb ?sd "''GET''" "''POST''" "''/pets''" "''/users''"]
  have c1: "generateRouteKey ?pet ''GET'' ''/pets'' \<noteq> generateRouteKey ?ord ''GET'' ''/pets''"
    using within [THEN conjunct2, THEN conjunct2, THEN conjunct2, THEN conjunct2, THEN conjunct1] by simp
  have c2: "generateRouteKey ?pet ''GET'' ''/pets'' = generateRouteKey ?oth ''GET'' ''/pets''"
    using same [THEN conjunct2, THEN conjunct2, THEN conjunct2, THEN conjunct2, THEN conjunct1] by simp
  have c3: "generateRouteKey ?sa ''GET'' ''/pets'' \<noteq> generateRouteKey ?sb ''GET'' ''/pets''"
    using urls [THEN conjunct2, THEN conjunct2, THEN conjunct2, THEN conjunct2, THEN conjunct2, THEN conjunct1] by simp
  have c4: "getSpecIdentifier ?pet = ''Petstore''"
    using within [THEN conjunct2, THEN conjunct1] by simp
  have c5: "getSpecIdentifier ?sa = ''/a/docs''"
    using same [THEN conjunct2, THEN conjunct2, THEN conjunct1] by simp
  have c6: "getSpecIdentifier ?sd = ''default-spec''"
    using urls [THEN conjunct2, THEN conjunct2, THEN conjunct2, THEN conjunct1] by simp
  have c7: "generateRouteKey ?pet ''GET'' ''/pets'' \<noteq> generateRouteKey ?pet ''POST'' ''/pets''"
    using within [THEN conjunct2, THEN conjunct2, THEN conjunct2, THEN conjunct2, THEN conjunct2, THEN conjunct2, THEN conjunct1] by simp
  have c8: "generateRouteKey ?pet ''GET'' ''/pets'' \<noteq> generateRouteKey ?pet ''GET'' ''/users''"
    using within [THEN conjunct2, THEN conjunct2, THEN conjunct2, THEN conjunct2, THEN conjunct2, THEN conjunct2, THEN conjunct2, THEN conjunct1] by simp
  have c9: "generateRouteKey ?pet ''GET'' ''/pets'' \<noteq> generateRouteKey ?pet ''POST'' ''/users''"
    using within [THEN conjunct2, THEN conjunct2, THEN conjunct2, THEN conjunct2, THEN conjunct2, THEN conjunct2, THEN conjunct2, THEN conjunct2] by simp
  have c10: "generateRouteKey ?pet ''GET'' ''/pets'' = ''Petstore::GET::/pets''"
    by (simp add: generateRouteKey_def getSpecIdentifier_def)
  from c1 c2 c3 c4 c5 c6 c7 c8 c9 c10 show ?thesis by (intro conjI)
qed

text \<open>
  C6. When the key of a route is not in the stored starred set, toggling the
  route resolves to true and the stored set is the old one with exactly that
  key added (at the end); toggling the same route again resolves to false
  and the stored array is the original set again, key for key, so its size
  is the original count. A store that held its keys without repetition (as
  every store written by this module does) is restored exactly.
\<close>

theorem toggleStarred_round_trip:
  assumes absent: "\<not> Set_has (getStarredRoutes st) (generateRouteKey pg m p)"
  shows "snd (toggleStarred st pg m p) = True
    \<and> getStarredRoutes (fst (toggleStarred st pg m p))
        = getStarredRoutes st @ [generateRouteKey pg m p]
    \<and> snd (toggleStarred (fst (toggleStarred st pg m p)) pg m p) = False
    \<and> fst (toggleStarred (fst (toggleStarred st pg m p)) pg m p) = Some (getStarredRoutes st)
    \<and> getStarredRoutes (fst (toggleStarred (fst (toggleStarred st pg m p)) pg m p))
        = getStarredRoutes st
    \<and> length (the (fst (toggleStarred (fst (toggleStarred st pg m p)) pg m p)))
        = length (getStarredRoutes st)
    \<and> (\<forall>xs. st = Some xs \<and> distinct xs \<longrightarrow>
          fst (toggleStarred (fst (toggleStarred st pg m p)) pg m p) = st)"
proof -
  let ?k = "generateRouteKey pg m p"
  let ?s = "getStarredRoutes st"
  have dist: "distinct ?s" by (rule getStarredRoutes_distinct)
  from absent have fresh: "?k \<notin> set ?s" by (simp add: Set_has_def)
  have first: "toggleStarred st pg m p = (Some (?s @ [?k]), True)"
    using fresh by (simp add: toggleStarred_def Let_def Set_has_def Set_add_def Array_from_def)
  have dist1: "distinct (?s @ [?k])" using dist fresh by simp
  have read1: "getStarredRoutes (Some (?s @ [?k])) = ?s @ [?k]"
    using dist1 by (rule getStarredRoutes_Some_distinct)
  have second: "toggleStarred (Some (?s @ [?k])) pg m p = (Some ?s, False)"
    using fresh read1 filter_neq_append_fresh [OF fresh]
    by (simp add: toggleStarred_def Let_def Set_has_def Set_delete_def Array_from_def)
  have read2: "getStarredRoutes (Some ?s) = ?s"
    using dist by (rule getStarredRoutes_Some_distinct)
  have twice: "fst (toggleStarred (fst (toggleStarred st pg m p)) pg m p) = Some ?s"
    using first second by simp
  have exact: "\<forall>xs. st = Some xs \<and> distinct xs \<longrightarrow>
      fst (toggleStarred (fst (toggleStarred st pg m p)) pg m p) = st"
    unfolding twice by (auto simp: getStarredRoutes_Some_distinct)
  have main: "snd (toggleStarred st pg m p) = True
    \<and> getStarredRoutes (fst (toggleStarred st pg m p)) = ?s @ [?k]
    \<and> snd (toggleStarred (fst (toggleStarred st pg m p)) pg m p) = False
    \<and> fst (toggleStarred (fst (toggleStarred st pg m p)) pg m p) = Some ?s
    \<and> getStarredRoutes (fst (toggleStarred (fst (toggleStarred st pg m p)) pg m p)) = ?s
    \<and> length (the (fst (toggleStarred (fst (toggleStarred st pg m p)) pg m p))) = length ?s"
    using first second read1 read2 by simp
  from main exact show ?thesis by blast
qed

theorem toggleStarred_round_trip_witness:
  "\<not> Set_has (getStarredRoutes (Some [''Petstore::GET::/pets'']))
        (generateRouteKey \<lparr>title = ''Petstore'', pathname = ''/''\<rparr> ''POST'' ''/pets'')
   \<and> toggleStarred (Some [''Petstore::GET::/pets''])
        \<lparr>title = ''Petstore'', pathname = ''/''\<rparr> ''POST'' ''/pets''
      = (Some [''Petstore::GET::/pets'', ''Petstore::POST::/pets''], True)
   \<and> toggleStarred (Some [''Petstore::GET::/pets'', ''Petstore::POST::/pets''])
        \<lparr>title = ''Petstore'', pathname = ''/''\<rparr> ''POST'' ''/pets''
      = (Some [''Petstore::GET::/pets''], False)
   \<and> fst (toggleStarred (fst (toggleStarred (Some [''Petstore::GET::/pets''])
        \<lparr>title = ''Petstore'', pathname = ''/''\<rparr> ''POST'' ''/pets''))
        \<lparr>title = ''Petstore'', pathname = ''/''\<rparr> ''POST'' ''/pets'')
      = Some (getStarredRoutes (Some [''Petstore::GET::/pets'']))"
proof -
  have absent: "\<not> Set_has (getStarredRoutes (Some [''Petstore::GET::/pets'']))
        (generateRouteKey \<lparr>title = ''Petstore'', pathname = ''/''\<rparr> ''POST'' ''/pets'')"
    by (simp add: getStarredRoutes_def new_Set_def Set_add_def Set_has_def
        generateRouteKey_def getSpecIdentifier_def)
  have t1: "toggleStarred (Some [''Petstore::GET::/pets''])
        \<lparr>title = ''Petstore'', pathname = ''/''\<rparr> ''POST'' ''/pets''
      = (Some [''Petstore::GET::/pets'', ''Petstore::POST::/pets''], True)"
    by (simp add: toggleStarred_def Let_def getStarredRoutes_def new_Set_def Set_add_def
        Set_has_def Set_delete_def Array_from_def generateRouteKey_def getSpecIdentifier_def)
  have t2: "toggleStarred (Some [''Petstore::GET::/pets'', ''Petstore::POST::/pets''])
        \<lparr>title = ''Petstore'', pathname = ''/''\<rparr> ''POST'' ''/pets''
      = (Some [''Petstore::GET::/pets''], False)"
    by (simp add: toggleStarred_def Let_def getStarredRoutes_def new_Set_def Set_add_def
        Set_has_def Set_delete_def Array_from_def generateRouteKey_def getSpecIdentifier_def)
  from toggleStarred_round_trip [OF absent] absent t1 t2 show ?thesis by simp
qed

text \<open>
  C9. The bulk clear is to remove the bookmarks of the current document and
  leave those of every other document. The code takes for the keys of the
  current document the keys that start with \<open>${specId}::\<close>: with the
  current document titled \<open>Pet\<close>, the stored key of \<open>GET /pets\<close> of the
  document titled \<open>Pet::v2\<close>, a different specIdentifier, starts with
  \<open>Pet::\<close> and is removed by the clear.
\<close>

theorem clearStarredRoutes_removes_other_document:
  "getSpecIdentifier \<lparr>title = ''Pet::v2'', pathname = ''/''\<rparr>
      \<noteq> getSpecIdentifier \<lparr>title = ''Pet'', pathname = ''/''\<rparr>
   \<and> Set_has (getStarredRoutes
        (Some [generateRouteKey \<lparr>title = ''Pet::v2'', pathname = ''/''\<rparr> ''GET'' ''/pets'']))
        (generateRouteKey \<lparr>title = ''Pet::v2'', pathname = ''/''\<rparr> ''GET'' ''/pets'')
   \<and> \<not> Set_has (getStarredRoutes (clearStarredRoutes
        (Some [generateRouteKey \<lparr>title = ''Pet::v2'', pathname = ''/''\<rparr> ''GET'' ''/pets''])
        \<lparr>title = ''Pet'', pathname = ''/''\<rparr>))
        (generateRouteKey \<lparr>title = ''Pet::v2'', pathname = ''/''\<rparr> ''GET'' ''/pets'')
   \<and> clearStarredRoutes
        (Some [generateRouteKey \<lparr>title = ''Pet::v2'', pathname = ''/''\<rparr> ''GET'' ''/pets''])
        \<lparr>title = ''Pet'', pathname = ''/''\<rparr> = Some []"
  by (simp add: clearStarredRoutes_def Let_def getStarredRoutes_def new_Set_def Set_add_def
      Set_has_def Array_from_def startsWith_def generateRouteKey_def getSpecIdentifier_def)

section \<open>Properties of the operation extractor\<close>

lemma parseOperation_None_iff:
  "parseOperation E b = None \<longleftrightarrow>
     querySelector SEL_method b = None \<or> querySelector SEL_path b = None"
  by (simp add: parseOperation_def Let_def split: option.splits)

lemma parseOperation_element: "parseOperation E b = Some op \<Longrightarrow> element op = b"
  by (auto simp: parseOperation_def Let_def split: option.splits)

lemma map_filter_element:
  "map element (List.map_filter (parseOperation E) bs) = filter (\<lambda>b. parseOperation E b \<noteq> None) bs"
  by (induction bs) (auto simp: List.map_filter_simps parseOperation_element split: option.splits)

lemma map_filter_Some:
  "map Some (List.map_filter f bs) = filter (\<lambda>r. r \<noteq> None) (map f bs)"
  by (induction bs) (auto simp: List.map_filter_simps split: option.splits)

lemma map_filter_skip:
  "f bad = None \<Longrightarrow> List.map_filter f (xs @ bad # ys) = List.map_filter f xs @ List.map_filter f ys"
  by (simp add: List.map_filter_def)

text \<open>
  C8. A block without a method element or without a path element parses to
  no operation, and a block with both parses to an operation of that
  block. Whatever malformed block stands among the blocks of a tag group,
  the blocks before and after it are extracted as without it: the
  extracted operations of a tag group are exactly its well-formed blocks,
  in document order, and the operations of the page are those of every tag
  group in turn. No step of the extraction can fail.
\<close>

theorem partial_markup_skipped:
  "(querySelector SEL_method b = None \<or> querySelector SEL_path b = None
      \<longrightarrow> parseOperation E b = None)
   \<and> (querySelector SEL_method b \<noteq> None \<and> querySelector SEL_path b \<noteq> None
      \<longrightarrow> (\<exists>op. parseOperation E b = Some op \<and> element op = b))
   \<and> (querySelectorAll SEL_operations t = xs @ bad # ys \<and> parseOperation E bad = None
      \<longrightarrow> extractOperationsForTag E t
            = List.map_filter (parseOperation E) xs @ List.map_filter (parseOperation E) ys)
   \<and> map element (extractOperationsForTag E t)
        = filter (\<lambda>b. parseOperation E b \<noteq> None) (querySelectorAll SEL_operations t)
   \<and> map element (extractAllOperations E doc)
        = concat (map (\<lambda>tg. filter (\<lambda>b. parseOperation E b \<noteq> None)
                                 (querySelectorAll SEL_operations (tag_element tg)))
                      (extractTags E doc))"
proof -
  have p1: "querySelector SEL_method b = None \<or> querySelector SEL_path b = None
      \<longrightarrow> parseOperation E b = None"
    by (simp add: parseOperation_None_iff)
  have p2: "querySelector SEL_method b \<noteq> None \<and> querySelector SEL_path b \<noteq> None
      \<longrightarrow> (\<exists>op. parseOperation E b = Some op \<and> element op = b)"
    using parseOperation_None_iff [of E b] parseOperation_element [of E b] by auto
  have p3: "querySelectorAll SEL_operations t = xs @ bad # ys \<and> parseOperation E bad = None
      \<longrightarrow> extractOperationsForTag E t
            = List.map_filter (parseOperation E) xs @ List.map_filter (parseOperation E) ys"
    by (simp add: extractOperationsForTag_def map_filter_skip)
  have p4: "map element (extractOperationsForTag E t)
        = filter (\<lambda>b. parseOperation E b \<noteq> None) (querySelectorAll SEL_operations t)" for t
    by (simp add: extractOperationsForTag_def map_filter_element)
  have p5: "map element (extractAllOperations E doc)
        = concat (map (\<lambda>tg. filter (\<lambda>b. parseOperation E b \<noteq> None)
                                 (querySelectorAll SEL_operations (tag_element tg)))
                      (extractTags E doc))"
  proof -
    have "map element (extractAllOperations E doc)
        = concat (map (\<lambda>tg. map element (extractOperationsForTag E (tag_element tg)))
                      (extractTags E doc))"
      by (simp add: extractAllOperations_def map_concat comp_def)
    then show ?thesis by (simp only: p4)
  qed
  from p1 p2 p3 p4 p5 show ?thesis by blast
qed

theorem partial_markup_skipped_witness:
  "querySelector SEL_path example_broken = None
   \<and> parseOperation ascii_engine example_broken = None
   \<and> querySelector SEL_method (example_op ''post'' ''/pets'') \<noteq> None
   \<and> querySelector SEL_path (example_op ''post'' ''/pets'') \<noteq> None
   \<and> (\<exists>op. parseOperation ascii_engine (example_op ''post'' ''/pets'') = Some op
          \<and> element op = example_op ''post'' ''/pets'')
   \<and> querySelectorAll SEL_operations (example_tag ''pets''
         [example_op ''get'' '' /pets '', example_broken, example_op ''post'' ''/pets''])
       = [example_op ''get'' '' /pets ''] @ example_broken # [example_op ''post'' ''/pets'']
   \<and> map (\<lambda>op. (http_method op, path op)) (extractOperationsForTag ascii_engine (example_tag ''pets''
         [example_op ''get'' '' /pets '', example_broken, example_op ''post'' ''/pets'']))
       = [(''GET'', ''/pets''), (''POST'', ''/pets'')]
   \<and> extractOperationsForTag ascii_engine (example_tag ''pets''
         [example_op ''get'' '' /pets '', example_broken, example_op ''post'' ''/pets''])
       = List.map_filter (parseOperation ascii_engine) [example_op ''get'' '' /pets '']
         @ List.map_filter (parseOperation ascii_engine) [example_op ''post'' ''/pets'']
   \<and> map (\<lambda>op. (http_method op, path op, tagName op)) (extractAllOperations ascii_engine example_doc)
       = [(''GET'', ''/pets'', ''pets''), (''POST'', ''/pets'', ''pets''),
          (''GET'', ''/pets'', ''store'')]"
proof -
  have broken: "querySelector SEL_path example_broken = None"
    by code_simp
  have good: "querySelector SEL_method (example_op ''post'' ''/pets'') \<noteq> None
      \<and> querySelector SEL_path (example_op ''post'' ''/pets'') \<noteq> None"
    by code_simp
  have blocks: "querySelectorAll SEL_operations (example_tag ''pets''
         [example_op ''get'' '' /pets '', example_broken, example_op ''post'' ''/pets''])
       = [example_op ''get'' '' /pets ''] @ example_broken # [example_op ''post'' ''/pets'']"
    by code_simp
  have tag_ops: "map (\<lambda>op. (http_method op, path op)) (extractOperationsForTag ascii_engine (example_tag ''pets''
         [example_op ''get'' '' /pets '', example_broken, example_op ''post'' ''/pets'']))
       = [(''GET'', ''/pets''), (''POST'', ''/pets'')]"
    by code_simp
  have all_ops: "map (\<lambda>op. (http_method op, path op, tagName op)) (extractAllOperations ascii_engine example_doc)
       = [(''GET'', ''/pets'', ''pets''), (''POST'', ''/pets'', ''pets''),
          (''GET'', ''/pets'', ''store'')]"
    by code_simp
  from partial_markup_skipped [of example_broken ascii_engine] broken
  have none: "parseOperation ascii_engine example_broken = None" by blast
  from partial_markup_skipped [of "example_op ''post'' ''/pets''" ascii_engine] good
  have some: "\<exists>op. parseOperation ascii_engine (example_op ''post'' ''/pets'') = Some op
          \<and> element op = example_op ''post'' ''/pets''" by blast
  from partial_markup_skipped [of _ ascii_engine "example_tag ''pets''
         [example_op ''get'' '' /pets '', example_broken, example_op ''post'' ''/pets'']"
       "[example_op ''get'' '' /pets '']" example_broken "[example_op ''post'' ''/pets'']"]
    blocks none
  have skip: "extractOperationsForTag ascii_engine (example_tag ''pets''
         [example_op ''get'' '' /pets '', example_broken, example_op ''post'' ''/pets''])
       = List.map_filter (parseOperation ascii_engine) [example_op ''get'' '' /pets '']
         @ List.map_filter (parseOperation ascii_engine) [example_op ''post'' ''/pets'']" by blast
  from broken none good some blocks tag_ops skip all_ops show ?thesis by blast
qed

lemma find_enumerate_first:
  "find (\<lambda>(i, x). P x) (enumerate 0 xs) = Some (i, x) \<longleftrightarrow>
     i < length xs \<and> xs ! i = x \<and> P x \<and> (\<forall>j<i. \<not> P (xs ! j))"
  by (auto simp: find_Some_iff nth_enumerate_eq)

lemma find_enumerate_None:
  "find (\<lambda>(i, x). P x) (enumerate n xs) = None \<longleftrightarrow> (\<forall>x\<in>set xs. \<not> P x)"
  by (induction xs arbitrary: n) auto


lemma toUpperCase_ascii_idem:
  "toUpperCase ascii_engine (toUpperCase ascii_engine s) = toUpperCase ascii_engine s"
  by (induction s) (auto simp: ascii_engine_def toUpperChar_def Let_def)

lemma parseOperation_method_upper:
  "\<forall>s. toUpperCase E (toUpperCase E s) = toUpperCase E s \<Longrightarrow> parseOperation E b = Some op \<Longrightarrow>
     toUpperCase E (http_method op) = http_method op"
  by (auto simp: parseOperation_def Let_def split: option.splits)

lemma parseOperation_renders:
  "parseOperation E b = Some op \<Longrightarrow> toUpperCase E (http_method op) = http_method op \<Longrightarrow>
     renders E b (http_method op) (path op)"
  by (auto simp: parseOperation_def renders_def opMethod_def opPath_def Let_def
      split: option.splits)

text \<open>
  C10. Whatever the case mapping and the white space of the engine are,
  \<open>findOperationElement\<close> returns a block exactly when it is the first
  block of the page, in document order, that renders the given method and
  path; it finds one whenever some block renders them; two methods with
  the same upper case give the same result; and for the operation parsed
  from any block of the page, when upper-casing leaves its method (itself
  upper-cased text) unchanged, the lookup with that operation's method and
  path returns the first block that renders them, at or before that block,
  never a later one.
\<close>

theorem findOperationElement_first_match:
  fixes E :: engine and doc :: node
  defines "ops \<equiv> querySelectorAll SEL_operations doc"
  shows "(findOperationElement E doc m p = Some (i, b) \<longleftrightarrow>
            i < length ops \<and> ops ! i = b \<and> renders E b m p
            \<and> (\<forall>j<i. \<not> renders E (ops ! j) m p))
    \<and> ((\<exists>b\<in>set ops. renders E b m p) \<longrightarrow> findOperationElement E doc m p \<noteq> None)
    \<and> (toUpperCase E m' = toUpperCase E m \<longrightarrow>
          findOperationElement E doc m' p = findOperationElement E doc m p)
    \<and> (k < length ops \<and> parseOperation E (ops ! k) = Some op
          \<and> toUpperCase E (http_method op) = http_method op \<longrightarrow>
          (\<exists>i\<le>k. findOperationElement E doc (http_method op) (path op) = Some (i, ops ! i)
                 \<and> (\<forall>j<i. \<not> renders E (ops ! j) (http_method op) (path op))))"
proof -
  have unf: "findOperationElement E doc m p
      = find (\<lambda>(i, x). renders E x m p) (enumerate 0 ops)" for m p
    by (simp add: findOperationElement_def renders_def ops_def)
  have first: "findOperationElement E doc m p = Some (i, b) \<longleftrightarrow>
            i < length ops \<and> ops ! i = b \<and> renders E b m p
            \<and> (\<forall>j<i. \<not> renders E (ops ! j) m p)"
    for m p i b
    unfolding unf by (rule find_enumerate_first)
  have some: "(\<exists>b\<in>set ops. renders E b m p) \<longrightarrow> findOperationElement E doc m p \<noteq> None"
    for m p
    unfolding unf by (simp add: find_enumerate_None)
  have ci: "toUpperCase E m' = toUpperCase E m \<longrightarrow>
          findOperationElement E doc m' p = findOperationElement E doc m p"
    by (simp add: findOperationElement_def)
  have link: "\<exists>i\<le>k. findOperationElement E doc (http_method op) (path op) = Some (i, ops ! i)
                 \<and> (\<forall>j<i. \<not> renders E (ops ! j) (http_method op) (path op))"
    if k: "k < length ops" and parse: "parseOperation E (ops ! k) = Some op"
      and upper: "toUpperCase E (http_method op) = http_method op"
  proof -
    from parse upper have rk: "renders E (ops ! k) (http_method op) (path op)"
      by (rule parseOperation_renders)
    with k have "\<exists>b\<in>set ops. renders E b (http_method op) (path op)" by auto
    with some obtain i b
      where fnd: "findOperationElement E doc (http_method op) (path op) = Some (i, b)"
      by fastforce
    from fnd first have props: "i < length ops" "ops ! i = b"
      "\<forall>j<i. \<not> renders E (ops ! j) (http_method op) (path op)" by blast+
    from props(3) rk have "i \<le> k" by (meson not_le)
    with fnd props show ?thesis by blast
  qed
  from first some ci link show ?thesis by blast
qed

theorem findOperationElement_first_match_witness:
  "toUpperCase ascii_engine ''Get'' = toUpperCase ascii_engine ''GET''
   \<and> findOperationElement ascii_engine example_doc ''Get'' ''/pets''
        = findOperationElement ascii_engine example_doc ''GET'' ''/pets''
   \<and> findOperationElement ascii_engine example_doc ''GET'' ''/pets''
        = Some (0, querySelectorAll SEL_operations example_doc ! 0)
   \<and> (3::nat) < length (querySelectorAll SEL_operations example_doc)
   \<and> map_option (\<lambda>op. (http_method op, path op))
        (parseOperation ascii_engine (querySelectorAll SEL_operations example_doc ! 3))
        = Some (''GET'', ''/pets'')
   \<and> renders ascii_engine (querySelectorAll SEL_operations example_doc ! 3) ''GET'' ''/pets''
   \<and> (\<exists>b\<in>set (querySelectorAll SEL_operations example_doc).
         renders ascii_engine b ''GET'' ''/pets'')
   \<and> findOperationElement ascii_engine example_doc ''GET'' ''/pets'' \<noteq> None
   \<and> (\<exists>op i. parseOperation ascii_engine (querySelectorAll SEL_operations example_doc ! 3)
             = Some op
         \<and> toUpperCase ascii_engine (http_method op) = http_method op
         \<and> i \<le> 3
         \<and> findOperationElement ascii_engine example_doc (http_method op) (path op)
             = Some (i, querySelectorAll SEL_operations example_doc ! i))
   \<and> findOperationElement ascii_engine nbsp_doc ''GET'' ''/pets''
        = Some (0, example_op (''get'' @ [CHR 0xA0]) ''/pets'')"
proof -
  have up: "toUpperCase ascii_engine ''Get'' = toUpperCase ascii_engine ''GET''"
    by code_simp
  have run: "findOperationElement ascii_engine example_doc ''GET'' ''/pets''
        = Some (0, querySelectorAll SEL_operations example_doc ! 0)"
    by code_simp
  have len: "(3::nat) < length (querySelectorAll SEL_operations example_doc)"
    by code_simp
  have last: "map_option (\<lambda>op. (http_method op, path op))
        (parseOperation ascii_engine (querySelectorAll SEL_operations example_doc ! 3))
        = Some (''GET'', ''/pets'')"
    by code_simp
  have dup: "renders ascii_engine (querySelectorAll SEL_operations example_doc ! 3)
      ''GET'' ''/pets''"
    by code_simp
  have nbsp: "findOperationElement ascii_engine nbsp_doc ''GET'' ''/pets''
        = Some (0, example_op (''get'' @ [CHR 0xA0]) ''/pets'')"
    by code_simp
  from len dup
  have ex: "\<exists>b\<in>set (querySelectorAll SEL_operations example_doc).
      renders ascii_engine b ''GET'' ''/pets''"
    using nth_mem by blast
  from findOperationElement_first_match
    [of ascii_engine example_doc "''GET''" "''/pets''" _ _ "''Get''"] up ex
  have "findOperationElement ascii_engine example_doc ''Get'' ''/pets''
        = findOperationElement ascii_engine example_doc ''GET'' ''/pets''"
    and "findOperationElement ascii_engine example_doc ''GET'' ''/pets'' \<noteq> None"
    by blast+
  note ci = this
  from last obtain op
    where op: "parseOperation ascii_engine (querySelectorAll SEL_operations example_doc ! 3)
        = Some op" and m: "http_method op = ''GET''"
    by (auto simp: map_option_case split: option.splits)
  have "toUpperCase ascii_engine ''GET'' = ''GET''" by code_simp
  with m have upper: "toUpperCase ascii_engine (http_method op) = http_method op" by simp
  from findOperationElement_first_match [of ascii_engine example_doc _ _ _ _ _ 3 op] len op upper
  have "\<exists>i\<le>3. findOperationElement ascii_engine example_doc (http_method op) (path op)
             = Some (i, querySelectorAll SEL_operations example_doc ! i)"
    by blast
  with op upper
  have link: "\<exists>op i. parseOperation ascii_engine (querySelectorAll SEL_operations example_doc ! 3)
             = Some op
         \<and> toUpperCase ascii_engine (http_method op) = http_method op
         \<and> i \<le> 3
         \<and> findOperationElement ascii_engine example_doc (http_method op) (path op)
             = Some (i, querySelectorAll SEL_operations example_doc ! i)"
    by blast
  from up ci(1) run len last dup ex ci(2) link nbsp show ?thesis by (intro conjI)
qed

section \<open>Properties of the sidebar panel\<close>






text \<open>
  C2 as stated fails: on the example page the first render shows the tag
  group \<open>pets\<close> collapsed; a click on its header expands it; the next
  refresh, with the page and the store unchanged, shows it collapsed again.
\<close>

theorem refresh_resets_expanded_counterexample:
  "(case refreshOperations ascii_engine example_doc None example_page created_sidebar of
      Inl e \<Rightarrow> False
    | Inr sb1 \<Rightarrow>
        (case sidebarElement (click_tag_header 0 sb1) of
           None \<Rightarrow> False
         | Some clicked \<Rightarrow>
             is_tag_section (clicked ! 0) \<and> is_expanded (clicked ! 0)
             \<and> (case refreshOperations ascii_engine example_doc None example_page (click_tag_header 0 sb1) of
                    Inl e \<Rightarrow> False
                  | Inr sb2 \<Rightarrow>
                      (case sidebarElement sb2 of
                         None \<Rightarrow> False
                       | Some rendered \<Rightarrow>
                           data_tag_id (rendered ! 0) = data_tag_id (clicked ! 0)
                           \<and> \<not> is_expanded (rendered ! 0)))))"
  by code_simp

text \<open>
  C2, amended. Every render builds the list anew with the default state:
  the starred group is expanded and every ordinary tag group is collapsed,
  whatever list stood there before and whichever header the user had
  clicked. The expanded state of a tag group lasts until the next render.
\<close>

theorem renderOperations_default_collapse:
  assumes "renderOperations E pg sb = Inr sb'"
  shows "\<exists>items. sidebarElement sb' = Some items
    \<and> (\<forall>it\<in>set items. (is_starred_section it \<longrightarrow> is_expanded it)
                       \<and> (is_tag_section it \<longrightarrow> \<not> is_expanded it))
    \<and> (\<forall>old. renderOperations E pg (sb\<lparr>sidebarElement := Some old\<rparr>) = Inr sb')
    \<and> (\<forall>i. renderOperations E pg (click_tag_header i sb) = Inr sb')"
proof -
  from assms obtain old where old: "sidebarElement sb = Some old"
    by (auto simp: renderOperations_def split: option.splits)
  let ?filtered = "filterOperations E (allOperations sb) (searchTerm sb)"
  from assms old obtain grouped where grouped: "groupOperationsByTag ?filtered = Inr grouped"
    by (auto simp: renderOperations_def Let_def split: sum.splits)
  let ?starredOps = "filter (\<lambda>op. Set_has (starredRouteKeys sb)
        (generateRouteKey pg (http_method op) (path op))) ?filtered"
  let ?html = "(if ?starredOps \<noteq> []
               then [renderStarredSection pg (starredRouteKeys sb) ?starredOps] else [])
      @ map (\<lambda>tg. case map_of grouped tg of
                    Some (ops, d) \<Rightarrow> renderTag E pg (starredRouteKeys sb) tg ops d
                  | None \<Rightarrow> renderTag E pg (starredRouteKeys sb) tg [] [])
            (Object_keys grouped)"
  let ?items = "if ?html = [] then [EmptyState] else ?html"
  from assms old grouped have sb': "sb' = sb\<lparr>sidebarElement := Some ?items\<rparr>"
    by (simp add: renderOperations_def Let_def)
  have shown: "sidebarElement sb' = Some ?items"
    unfolding sb' by simp
  have each: "(is_starred_section it \<longrightarrow> is_expanded it)
      \<and> (is_tag_section it \<longrightarrow> \<not> is_expanded it)" if "it \<in> set ?items" for it
    using that
    by (auto simp: is_starred_section_def is_expanded_def is_tag_section_def
        renderStarredSection_def renderTag_def split: if_splits option.splits)
  have indep: "renderOperations E pg (sb\<lparr>sidebarElement := Some other\<rparr>) = Inr sb'" for other
    using grouped unfolding sb' by (simp add: renderOperations_def Let_def cong: option.case_cong)
  have click: "renderOperations E pg (click_tag_header i sb) = Inr sb'" for i
    using indep old assms by (simp add: click_tag_header_def)
  from shown each indep click show ?thesis by blast
qed


theorem renderOperations_default_collapse_witness:
  "(\<exists>sb' items. renderOperations ascii_engine example_page example_sidebar = Inr sb'
      \<and> sidebarElement sb' = Some items
      \<and> (\<forall>it\<in>set items. (is_starred_section it \<longrightarrow> is_expanded it)
                         \<and> (is_tag_section it \<longrightarrow> \<not> is_expanded it))
      \<and> renderOperations ascii_engine example_page (click_tag_header 0 example_sidebar) = Inr sb')
   \<and> map (\<lambda>it. (data_tag_id it, is_starred_section it, is_expanded it))
        (rendered_items (renderOperations ascii_engine example_page example_sidebar))
      = [(''starred'', True, True), (''tag-pets'', False, False)]"
proof -
  have "case renderOperations ascii_engine example_page example_sidebar of Inl e \<Rightarrow> False | Inr sb' \<Rightarrow> True"
    by code_simp
  then obtain sb' where run: "renderOperations ascii_engine example_page example_sidebar = Inr sb'"
    by (cases "renderOperations ascii_engine example_page example_sidebar") auto
  from renderOperations_default_collapse [OF run] run
  have first: "\<exists>sb' items. renderOperations ascii_engine example_page example_sidebar = Inr sb'
      \<and> sidebarElement sb' = Some items
      \<and> (\<forall>it\<in>set items. (is_starred_section it \<longrightarrow> is_expanded it)
                         \<and> (is_tag_section it \<longrightarrow> \<not> is_expanded it))
      \<and> renderOperations ascii_engine example_page (click_tag_header 0 example_sidebar) = Inr sb'"
    by blast
  have second: "map (\<lambda>it. (data_tag_id it, is_starred_section it, is_expanded it))
        (rendered_items (renderOperations ascii_engine example_page example_sidebar))
      = [(''starred'', True, True), (''tag-pets'', False, False)]"
    by code_simp
  from first second show ?thesis by (rule conjI)
qed

section \<open>Properties of the mutation handler\<close>

lemma advance_nothing_due:
  "\<forall>(i, due) \<in> set (timers w). t < due \<Longrightarrow> advance t w = w\<lparr>clock := max (clock w) t\<rparr>"
proof -
  assume "\<forall>(i, due) \<in> set (timers w). t < due"
  then have "filter (\<lambda>(i, due). due \<le> t) (timers w) = []"
    by (auto simp: filter_empty_conv)
  then show ?thesis by (simp add: advance_def)
qed

lemma armed_step:
  assumes "armed t w" "observer w" "t \<le> t'" "t' < t + DEBOUNCE_DELAY" "shouldReinit ms"
  shows "armed t' (occur (Mutations ms) (advance t' w))
    \<and> observer (occur (Mutations ms) (advance t' w))
    \<and> injections (occur (Mutations ms) (advance t' w)) = injections w
    \<and> refreshes (occur (Mutations ms) (advance t' w)) = refreshes w
    \<and> sidebarUI (occur (Mutations ms) (advance t' w)) = sidebarUI w"
proof -
  from assms(1) obtain i where i: "debounceTimer w = Some i" "timers w = [(i, t + DEBOUNCE_DELAY)]"
    "clock w = t" by (auto simp: armed_def split: option.splits)
  from i assms have adv: "advance t' w = w\<lparr>clock := t'\<rparr>"
    by (simp add: advance_nothing_due max_def)
  show ?thesis
    unfolding adv using i assms
    by (simp add: handleMutations_def debouncedReinit_def clearTimeout_def setTimeout_def armed_def)
qed

lemma armed_fires:
  assumes "armed t w"
  shows "T < t + DEBOUNCE_DELAY \<Longrightarrow> injections (advance T w) = injections w
           \<and> refreshes (advance T w) = refreshes w"
    and "t + DEBOUNCE_DELAY \<le> T \<Longrightarrow>
           injections (advance T w) = injections w @ [t + DEBOUNCE_DELAY]
           \<and> refreshes (advance T w)
               = refreshes w @ (if sidebarUI w then [t + DEBOUNCE_DELAY] else [])
           \<and> timers (advance T w) = []"
proof -
  from assms obtain i where i: "debounceTimer w = Some i" "timers w = [(i, t + DEBOUNCE_DELAY)]"
    "clock w = t" by (auto simp: armed_def split: option.splits)
  show "T < t + DEBOUNCE_DELAY \<Longrightarrow> injections (advance T w) = injections w
           \<and> refreshes (advance T w) = refreshes w"
    using i by (simp add: advance_nothing_due)
  show "t + DEBOUNCE_DELAY \<le> T \<Longrightarrow>
           injections (advance T w) = injections w @ [t + DEBOUNCE_DELAY]
           \<and> refreshes (advance T w)
               = refreshes w @ (if sidebarUI w then [t + DEBOUNCE_DELAY] else [])
           \<and> timers (advance T w) = []"
    using i by (simp add: advance_def fire_def reconcile_def Let_def max_def)
qed


lemma armed_burst:
  "armed t w \<Longrightarrow> observer w \<Longrightarrow> rapid t rest \<Longrightarrow>
     armed (last (t # map fst rest)) (run_trace (burst_events rest) w)
     \<and> observer (run_trace (burst_events rest) w)
     \<and> injections (run_trace (burst_events rest) w) = injections w
     \<and> refreshes (run_trace (burst_events rest) w) = refreshes w
     \<and> sidebarUI (run_trace (burst_events rest) w) = sidebarUI w"
proof (induction rest arbitrary: t w)
  case Nil
  then show ?case by (simp add: burst_events_def)
next
  case (Cons e rest)
  obtain t' ms where e: "e = (t', ms)" by (cases e)
  from Cons.prems(3) e have step: "t \<le> t'" "t' < t + DEBOUNCE_DELAY" "shouldReinit ms" "rapid t' rest"
    by simp_all
  let ?w = "occur (Mutations ms) (advance t' w)"
  from armed_step [OF Cons.prems(1) Cons.prems(2) step(1) step(2) step(3)]
  have next_w: "armed t' ?w" "observer ?w" "injections ?w = injections w"
    "refreshes ?w = refreshes w" "sidebarUI ?w = sidebarUI w" by simp_all
  from Cons.IH [OF next_w(1) next_w(2) step(4)] next_w e
  show ?case by (simp add: burst_events_def)
qed

lemma first_mutation_arms:
  assumes "timers w = []" "observer w" "clock w \<le> t" "shouldReinit ms"
  shows "armed t (occur (Mutations ms) (advance t w))
    \<and> observer (occur (Mutations ms) (advance t w))
    \<and> injections (occur (Mutations ms) (advance t w)) = injections w
    \<and> refreshes (occur (Mutations ms) (advance t w)) = refreshes w
    \<and> sidebarUI (occur (Mutations ms) (advance t w)) = sidebarUI w"
proof -
  from assms have adv: "advance t w = w\<lparr>clock := t\<rparr>"
    by (simp add: advance_nothing_due max_def)
  show ?thesis
    unfolding adv using assms
    by (cases "debounceTimer w")
      (simp_all add: handleMutations_def debouncedReinit_def clearTimeout_def setTimeout_def
        armed_def)
qed

text \<open>
  C3. From an idle handler (no timeout pending, observer connected), a burst
  of N qualifying batches of mutations, each less than the debounce delay
  (300 ms) after the one before, runs no reconciliation until 300 ms after
  the last batch and exactly one then: one call of
  \<open>injectStarsIntoOperations\<close> and, \<open>window.SidebarUI\<close> being defined, one
  refresh of the sidebar; no timeout is left pending.
\<close>

theorem debounce_coalesces:
  assumes idle: "timers w = []" and obs: "observer w" and start: "clock w \<le> t1"
    and first: "shouldReinit ms1" and quick: "rapid t1 rest"
  shows "(T < last (t1 # map fst rest) + DEBOUNCE_DELAY \<longrightarrow>
            injections (advance T (run_trace (burst_events ((t1, ms1) # rest)) w)) = injections w
            \<and> refreshes (advance T (run_trace (burst_events ((t1, ms1) # rest)) w)) = refreshes w)
    \<and> (last (t1 # map fst rest) + DEBOUNCE_DELAY \<le> T \<longrightarrow>
            injections (advance T (run_trace (burst_events ((t1, ms1) # rest)) w))
              = injections w @ [last (t1 # map fst rest) + DEBOUNCE_DELAY]
            \<and> refreshes (advance T (run_trace (burst_events ((t1, ms1) # rest)) w))
              = refreshes w @ (if sidebarUI w then [last (t1 # map fst rest) + DEBOUNCE_DELAY]
                               else [])
            \<and> timers (advance T (run_trace (burst_events ((t1, ms1) # rest)) w)) = [])"
proof -
  let ?w1 = "occur (Mutations ms1) (advance t1 w)"
  let ?w = "run_trace (burst_events ((t1, ms1) # rest)) w"
  let ?tN = "last (t1 # map fst rest)"
  from first_mutation_arms [OF idle obs start first]
  have w1: "armed t1 ?w1" "observer ?w1" "injections ?w1 = injections w"
    "refreshes ?w1 = refreshes w" "sidebarUI ?w1 = sidebarUI w" by simp_all
  have unfold: "?w = run_trace (burst_events rest) ?w1"
    by (simp add: burst_events_def)
  from armed_burst [OF w1(1) w1(2) quick] w1 unfold
  have wN: "armed ?tN ?w" "injections ?w = injections w" "refreshes ?w = refreshes w"
    "sidebarUI ?w = sidebarUI w" by simp_all
  from armed_fires [OF wN(1), of T] wN(2) wN(3) wN(4) show ?thesis by simp
qed


theorem debounce_coalesces_witness:
  "timers (init blank_world) = [] \<and> observer (init blank_world)
   \<and> clock (init blank_world) \<le> 100
   \<and> shouldReinit [example_mutation]
   \<and> rapid 100 [(250, [example_mutation]), (500, [example_mutation])]
   \<and> injections (init blank_world) = [0]
   \<and> injections (advance 799 (run_trace (burst_events
         [(100, [example_mutation]), (250, [example_mutation]), (500, [example_mutation])])
         (init blank_world))) = [0]
   \<and> injections (advance 800 (run_trace (burst_events
         [(100, [example_mutation]), (250, [example_mutation]), (500, [example_mutation])])
         (init blank_world))) = [0, 800]
   \<and> refreshes (advance 800 (run_trace (burst_events
         [(100, [example_mutation]), (250, [example_mutation]), (500, [example_mutation])])
         (init blank_world))) = [800]"
proof -
  have idle: "timers (init blank_world) = []" by code_simp
  have obs: "observer (init blank_world)" by code_simp
  have start: "clock (init blank_world) \<le> 100" by code_simp
  have first: "shouldReinit [example_mutation]" by code_simp
  have quick: "rapid 100 [(250, [example_mutation]), (500, [example_mutation])]" by code_simp
  have before: "injections (init blank_world) = [0]" "refreshes (init blank_world) = []"
    "sidebarUI (init blank_world)" by code_simp+
  from debounce_coalesces [OF idle obs start first quick, of 799] before
  have early: "injections (advance 799 (run_trace (burst_events
         [(100, [example_mutation]), (250, [example_mutation]), (500, [example_mutation])])
         (init blank_world))) = [0]"
    by (simp add: DEBOUNCE_DELAY_def)
  from debounce_coalesces [OF idle obs start first quick, of 800] before
  have late: "injections (advance 800 (run_trace (burst_events
         [(100, [example_mutation]), (250, [example_mutation]), (500, [example_mutation])])
         (init blank_world))) = [0, 800]"
    "refreshes (advance 800 (run_trace (burst_events
         [(100, [example_mutation]), (250, [example_mutation]), (500, [example_mutation])])
         (init blank_world))) = [800]"
    by (simp_all add: DEBOUNCE_DELAY_def)
  from idle obs start first quick before(1) early late show ?thesis by (intro conjI)
qed

text \<open>
  C4 as stated fails: the handler is initialised at time 0, a qualifying
  mutation arrives at 100, \<open>destroy\<close> is called at 200; the debounce timer
  set at 100 still fires at 400 and runs the injection and the refresh.
\<close>

theorem destroy_pending_timer_counterexample:
  "\<not> observer (run_trace [(0, Init), (100, Mutations [example_mutation]), (200, Destroy)]
        blank_world)
   \<and> injections (run_trace [(0, Init), (100, Mutations [example_mutation]), (200, Destroy)]
        blank_world) = [0]
   \<and> injections (advance 1000
        (run_trace [(0, Init), (100, Mutations [example_mutation]), (200, Destroy)]
           blank_world)) = [0, 400]
   \<and> refreshes (advance 1000
        (run_trace [(0, Init), (100, Mutations [example_mutation]), (200, Destroy)]
           blank_world)) = [400]"
  by code_simp

text \<open>
  C4, amended. \<open>destroy\<close> disconnects the observer, so no mutation after it
  reaches the handler or arms a timer; it does not clear the debounce
  timer: a timer pending at \<open>destroy\<close> still fires once, at its due time,
  running one injection and (with \<open>window.SidebarUI\<close> defined) one refresh,
  after which no timeout is pending.
\<close>

theorem destroy_keeps_pending_timer:
  assumes pending: "armed t w" and later: "t \<le> td" and early: "td < t + DEBOUNCE_DELAY"
  shows "\<not> observer (destroy (advance td w))
    \<and> occur (Mutations ms) (destroy (advance td w)) = destroy (advance td w)
    \<and> (T < t + DEBOUNCE_DELAY \<longrightarrow>
          injections (advance T (destroy (advance td w))) = injections w
          \<and> refreshes (advance T (destroy (advance td w))) = refreshes w)
    \<and> (t + DEBOUNCE_DELAY \<le> T \<longrightarrow>
          injections (advance T (destroy (advance td w))) = injections w @ [t + DEBOUNCE_DELAY]
          \<and> refreshes (advance T (destroy (advance td w)))
              = refreshes w @ (if sidebarUI w then [t + DEBOUNCE_DELAY] else [])
          \<and> timers (advance T (destroy (advance td w))) = [])"
proof -
  from pending obtain i where i: "debounceTimer w = Some i"
    "timers w = [(i, t + DEBOUNCE_DELAY)]" "clock w = t" by (auto simp: armed_def split: option.splits)
  from i later early have adv: "advance td w = w\<lparr>clock := td\<rparr>"
    by (simp add: advance_nothing_due max_def)
  let ?d = "destroy (advance td w)"
  have d: "?d = w\<lparr>clock := td, observer := False, isInitialized := False\<rparr>"
    unfolding adv by (simp add: destroy_def)
  have off: "\<not> observer ?d" unfolding d by simp
  then have deaf: "occur (Mutations ms) ?d = ?d" by simp
  have quiet: "T < t + DEBOUNCE_DELAY \<longrightarrow>
          injections (advance T ?d) = injections w \<and> refreshes (advance T ?d) = refreshes w"
    unfolding d using i by (simp add: advance_nothing_due)
  have fires: "t + DEBOUNCE_DELAY \<le> T \<longrightarrow>
          injections (advance T ?d) = injections w @ [t + DEBOUNCE_DELAY]
          \<and> refreshes (advance T ?d)
              = refreshes w @ (if sidebarUI w then [t + DEBOUNCE_DELAY] else [])
          \<and> timers (advance T ?d) = []"
    unfolding d using i early
    by (simp add: advance_def fire_def reconcile_def Let_def max_def)
  from off deaf quiet fires show ?thesis by (intro conjI)
qed

theorem destroy_keeps_pending_timer_witness:
  "armed 100 (run_trace [(0, Init), (100, Mutations [example_mutation])] blank_world)
   \<and> (100::nat) \<le> 200 \<and> 200 < 100 + DEBOUNCE_DELAY
   \<and> injections (run_trace [(0, Init), (100, Mutations [example_mutation])] blank_world) = [0]
   \<and> injections (advance 399 (destroy (advance 200
        (run_trace [(0, Init), (100, Mutations [example_mutation])] blank_world)))) = [0]
   \<and> injections (advance 400 (destroy (advance 200
        (run_trace [(0, Init), (100, Mutations [example_mutation])] blank_world)))) = [0, 400]
   \<and> occur (Mutations [example_mutation]) (destroy (advance 200
        (run_trace [(0, Init), (100, Mutations [example_mutation])] blank_world)))
       = destroy (advance 200
        (run_trace [(0, Init), (100, Mutations [example_mutation])] blank_world))"
proof -
  let ?w = "run_trace [(0, Init), (100, Mutations [example_mutation])] blank_world"
  have "debounceTimer ?w = Some 1 \<and> timers ?w = [(1, 100 + DEBOUNCE_DELAY)] \<and> clock ?w = 100"
    by code_simp
  then have pending: "armed 100 ?w" by (simp add: armed_def)
  have later: "(100::nat) \<le> 200" by simp
  have early: "200 < 100 + DEBOUNCE_DELAY" by (simp add: DEBOUNCE_DELAY_def)
  have before: "injections ?w = [0]" by code_simp
  from destroy_keeps_pending_timer [OF pending later early, of _ 399] before
  have quiet: "injections (advance 399 (destroy (advance 200 ?w))) = [0]"
    by (simp add: DEBOUNCE_DELAY_def)
  from destroy_keeps_pending_timer [OF pending later early, of "[example_mutation]" 400] before
  have fires: "injections (advance 400 (destroy (advance 200 ?w))) = [0, 400]"
    and deaf: "occur (Mutations [example_mutation]) (destroy (advance 200 ?w))
       = destroy (advance 200 ?w)"
    by (simp_all add: DEBOUNCE_DELAY_def)
  from pending later early before quiet fires deaf show ?thesis by (intro conjI)
qed

section \<open>Properties of the star injection\<close>

lemma matches_children:
  "matches sel (Element tg i cs as ch) = matches sel (Element tg i cs as ch')"
  by (induction sel) simp_all

lemma count_in_Element:
  "count_in sel (Element tg i cs as ch)
     = (if matches sel (Element tg i cs as []) then 1 else 0) + sum_list (map (count_in sel) ch)"
proof -
  have "length (filter (matches sel) (concat (map (\<lambda>c. c # descendants c) ch)))
      = sum_list (map (count_in sel) ch)"
    by (induction ch) (simp_all add: count_in_def)
  then show ?thesis
    using matches_children [of sel tg i cs as ch "[]"] by (simp add: count_in_def)
qed

lemma count_in_Text: "count_in sel (Text t) = 0"
  by (simp add: count_in_def)

lemma list_ex_descendants_count:
  "list_ex (matches sel) (descendants n) \<longleftrightarrow> 0 < length (querySelectorAll sel n)"
  by (auto simp: querySelectorAll_def list_ex_iff filter_empty_conv)

lemma replace_first_count:
  assumes f: "\<And>m. P m \<Longrightarrow> sum_list (map (count_in sel) (f m)) = count_in sel m + k"
  shows "count_in sel (replace_first P f n)
           = count_in sel n + (if list_ex P (descendants n) then k else 0)"
    and "sum_list (map (count_in sel) (replace_first_in P f ns))
           = sum_list (map (count_in sel) ns)
             + (if list_ex P (concat (map (\<lambda>c. c # descendants c) ns)) then k else 0)"
  using f
proof (induction P f n and P f ns rule: replace_first_replace_first_in.induct)
  case (1 P f t)
  then show ?case by (simp add: count_in_Text)
next
  case (2 P f tg i cs as ch)
  then show ?case by (simp add: count_in_Element)
next
  case (3 P f)
  then show ?case by simp
next
  case (4 P f c rest)
  then show ?case by (auto simp: )
qed


lemma querySelector_None_iff:
  "querySelector sel n = None \<longleftrightarrow> \<not> list_ex (matches sel) (descendants n)"
  by (auto simp: querySelector_def find_None_iff list_ex_iff)

lemma star_button_counts:
  "count_in SEL_star (createStarButton m p st) = 1"
  "count_in SEL_operations (createStarButton m p st) = 0"
  "count_in SEL_method (createStarButton m p st) = 0"
  "count_in SEL_path (createStarButton m p st) = 0"
  "count_in SEL_summary_region (createStarButton m p st) = 0"
  by (simp_all add: count_in_def createStarButton_def SEL_star_def SEL_operations_def
      SEL_method_def SEL_path_def SEL_summary_region_def)

lemma place_star_count:
  assumes "matches SEL_summary_region s"
  shows "count_in sel (if querySelector SEL_expand s \<noteq> None
                       then replace_first (matches SEL_expand) (\<lambda>e. [star, e]) s
                       else appendChild s star)
         = count_in sel s + count_in sel star"
proof (cases "querySelector SEL_expand s = None")
  case True
  from assms obtain tg i cs as ch where s: "s = Element tg i cs as ch"
    by (cases s) auto
  from True show ?thesis
    unfolding s using matches_children [of sel tg i cs as "ch @ [star]" "[]"]
    by (simp add: count_in_Element)
next
  case False
  then have ex: "list_ex (matches SEL_expand) (descendants s)"
    by (simp add: querySelector_None_iff)
  have "count_in sel (replace_first (matches SEL_expand) (\<lambda>e. [star, e]) s)
      = count_in sel s + (if list_ex (matches SEL_expand) (descendants s)
                          then count_in sel star else 0)"
    by (rule replace_first_count(1)) simp
  with ex False show ?thesis by simp
qed

lemma replace_first_none:
  "\<not> list_ex P (descendants n) \<Longrightarrow> replace_first P f n = n"
  "\<not> list_ex P (concat (map (\<lambda>c. c # descendants c) ns)) \<Longrightarrow> replace_first_in P f ns = ns"
  by (induction P f n and P f ns rule: replace_first_replace_first_in.induct) auto

lemma injectStar_unchanged:
  "\<not> eligible E b \<Longrightarrow> injectStar E S pg b = b"
  by (auto simp: eligible_def injectStar_def Let_def querySelector_None_iff replace_first_none
      split: option.splits)

lemma injectStar_count:
  assumes k: "\<And>m p st. count_in sel (createStarButton m p st) = k"
  shows "count_in sel (injectStar E S pg b) = count_in sel b + (if eligible E b then k else 0)"
proof (cases "eligible E b")
  case False
  then show ?thesis by (simp add: injectStar_unchanged)
next
  case True
  then obtain op where op: "parseOperation E b = Some op"
    and nostar: "querySelector SEL_star b = None"
    and region: "list_ex (matches SEL_summary_region) (descendants b)"
    by (auto simp: eligible_def querySelector_None_iff)
  let ?star = "createStarButton (http_method op) (path op)
      (Set_has S (generateRouteKey pg (http_method op) (path op)))"
  let ?g = "\<lambda>s. [if querySelector SEL_expand s \<noteq> None
                   then replace_first (matches SEL_expand) (\<lambda>e. [?star, e]) s
                   else appendChild s ?star]"
  have unf: "injectStar E S pg b = replace_first (matches SEL_summary_region) ?g b"
    using op nostar by (simp add: injectStar_def Let_def)
  have "count_in sel (replace_first (matches SEL_summary_region) ?g b)
      = count_in sel b + (if list_ex (matches SEL_summary_region) (descendants b) then k else 0)"
  proof (rule replace_first_count(1))
    fix m assume "matches SEL_summary_region m"
    from place_star_count [OF this, of sel ?star] k [of "http_method op" "path op"]
    show "sum_list (map (count_in sel) (?g m)) = count_in sel m + k" by simp
  qed
  with unf region True show ?thesis by simp
qed

lemma injectStar_Element:
  "\<exists>ch'. injectStar E S pg (Element tg i cs as ch) = Element tg i cs as ch'"
  by (simp add: injectStar_def Let_def split: option.splits)

lemma injectStar_Text: "injectStar E S pg (Text t) = Text t"
  by (simp add: injectStar_def parseOperation_def querySelector_def)

lemma size_child: "c \<in> set ch \<Longrightarrow> size c < size (Element tg i cs as ch)"
  by (induction ch) auto

lemma count_in_child:
  "c \<in> set ch \<Longrightarrow> count_in sel c \<le> sum_list (map (count_in sel) ch)"
  by (induction ch) auto

termination injectStars_at
proof (relation "measures [\<lambda>(E, S, pg, n). count_in SEL_operations n,
    \<lambda>(E, S, pg, n). size n]")
  show "wf (measures [\<lambda>(E, S, pg, n). count_in SEL_operations n,
    \<lambda>(E :: engine, S :: js_set, pg :: page, n). size n])"
    by simp
next
  fix E :: engine and S :: js_set and pg :: page and n tg i cs as ch c
  assume eq: "(if matches SEL_operations n then injectStar E S pg n else n) = Element tg i cs as ch"
    and c: "c \<in> set ch"
  show "((E, S, pg, c), (E, S, pg, n))
      \<in> measures [\<lambda>(E, S, pg, n). count_in SEL_operations n, \<lambda>(E, S, pg, n). size n]"
  proof (cases "matches SEL_operations n")
    case False
    with eq have n: "n = Element tg i cs as ch" by simp
    from c have "count_in SEL_operations c \<le> count_in SEL_operations n"
      unfolding n using count_in_child [of c ch SEL_operations] by (simp add: count_in_Element)
    moreover from c have "size c < size n" unfolding n by (rule size_child)
    ultimately show ?thesis by auto
  next
    case True
    with eq have inj: "injectStar E S pg n = Element tg i cs as ch" by simp
    from True obtain tg' i' cs' as' ch' where n: "n = Element tg' i' cs' as' ch'"
      by (cases n) auto
    from injectStar_Element [of E S pg tg' i' cs' as' ch'] inj n
    have same: "tg = tg'" "i = i'" "cs = cs'" "as = as'" by auto
    from True n same have root: "matches SEL_operations (Element tg i cs as [])"
      using matches_children [of SEL_operations tg i cs as ch' "[]"] by simp
    have "count_in SEL_operations (injectStar E S pg n) = count_in SEL_operations n"
      using injectStar_count [of SEL_operations 0 E S pg n] by (simp add: star_button_counts)
    with inj root have "Suc (sum_list (map (count_in SEL_operations) ch)) = count_in SEL_operations n"
      by (simp add: count_in_Element)
    with count_in_child [OF c, of SEL_operations] show ?thesis by auto
  qed
qed


declare injectStars_at.simps [simp del]

lemma injectStars_at_Text: "injectStars_at E S pg (Text t) = Text t"
  by (simp add: injectStars_at.simps)

lemma injectStars_at_plain:
  "\<not> matches SEL_operations (Element tg i cs as ch) \<Longrightarrow>
     injectStars_at E S pg (Element tg i cs as ch)
       = Element tg i cs as (map (injectStars_at E S pg) ch)"
  by (subst injectStars_at.simps) simp

lemma injectStars_at_block:
  "matches SEL_operations n \<Longrightarrow> injectStar E S pg n = Element tg i cs as ch \<Longrightarrow>
     injectStars_at E S pg n = Element tg i cs as (map (injectStars_at E S pg) ch)"
  by (subst injectStars_at.simps) simp

text \<open>The descendants that match, counted without the node itself.\<close>

lemma count_in_split:
  "count_in sel n = (if matches sel n then 1 else 0) + length (querySelectorAll sel n)"
  by (simp add: count_in_def querySelectorAll_def)

lemma querySelectorAll_Element:
  "length (querySelectorAll sel (Element tg i cs as ch)) = sum_list (map (count_in sel) ch)"
  using count_in_Element [of sel tg i cs as ch] count_in_split [of sel "Element tg i cs as ch"]
    matches_children [of sel tg i cs as ch "[]"]
  by simp

lemma injectStars_at_count:
  assumes k: "\<And>m p st. count_in sel (createStarButton m p st) = 0"
  shows "count_in sel (injectStars_at E S pg n) = count_in sel n"
proof (induction E S pg n rule: injectStars_at.induct)
  case (1 E S pg n)
  let ?n' = "if matches SEL_operations n then injectStar E S pg n else n"
  have same: "count_in sel ?n' = count_in sel n"
    using injectStar_count [of sel 0 E S pg n] k by simp
  show ?case
  proof (cases ?n')
    case (Text t)
    then have "injectStars_at E S pg n = Text t"
      by (subst injectStars_at.simps) simp
    with Text same show ?thesis by simp
  next
    case (Element tg i cs as ch)
    then have unf: "injectStars_at E S pg n = Element tg i cs as (map (injectStars_at E S pg) ch)"
      by (subst injectStars_at.simps) simp
    have "map (count_in sel) (map (injectStars_at E S pg) ch) = map (count_in sel) ch"
      using "1.IH" [OF Element] by simp
    then have "count_in sel (injectStars_at E S pg n) = count_in sel ?n'"
      unfolding unf Element by (simp only: count_in_Element)
    with same show ?thesis by simp
  qed
qed

lemma injectStars_at_star_mono:
  "count_in SEL_star n \<le> count_in SEL_star (injectStars_at E S pg n)"
proof (induction E S pg n rule: injectStars_at.induct)
  case (1 E S pg n)
  let ?n' = "if matches SEL_operations n then injectStar E S pg n else n"
  have grow: "count_in SEL_star n \<le> count_in SEL_star ?n'"
    using injectStar_count [of SEL_star 1 E S pg n] by (simp add: star_button_counts)
  show ?case
  proof (cases ?n')
    case (Text t)
    then have "injectStars_at E S pg n = Text t"
      by (subst injectStars_at.simps) simp
    with Text grow show ?thesis by simp
  next
    case (Element tg i cs as ch)
    then have unf: "injectStars_at E S pg n = Element tg i cs as (map (injectStars_at E S pg) ch)"
      by (subst injectStars_at.simps) simp
    have "sum_list (map (count_in SEL_star) ch)
        \<le> sum_list (map (count_in SEL_star) (map (injectStars_at E S pg) ch))"
      using "1.IH" [OF Element] by (simp add: sum_list_mono comp_def)
    then have "count_in SEL_star ?n' \<le> count_in SEL_star (injectStars_at E S pg n)"
      unfolding unf Element by (simp only: count_in_Element)
    with grow show ?thesis by simp
  qed
qed

lemma injectStars_at_root:
  "matches sel (injectStars_at E S pg n) = matches sel n"
proof (cases n)
  case (Text t)
  then show ?thesis by (simp add: injectStars_at_Text)
next
  case (Element tg i cs as ch)
  show ?thesis
  proof (cases "matches SEL_operations n")
    case False
    with Element show ?thesis
      using matches_children [of sel tg i cs as "map (injectStars_at E S pg) ch" ch]
      by (simp add: injectStars_at_plain)
  next
    case True
    from injectStar_Element [of E S pg tg i cs as ch] Element obtain ch'
      where inj: "injectStar E S pg n = Element tg i cs as ch'" by auto
    from injectStars_at_block [OF True inj] Element show ?thesis
      using matches_children [of sel tg i cs as "map (injectStars_at E S pg) ch'" ch]
      by simp
  qed
qed

lemma injectStars_at_querySelector:
  assumes k: "\<And>m p st. count_in sel (createStarButton m p st) = 0"
  shows "querySelector sel (injectStars_at E S pg n) = None \<longleftrightarrow> querySelector sel n = None"
proof -
  from injectStars_at_count [OF k, of E S pg n] injectStars_at_root [of sel E S pg n]
  have "length (querySelectorAll sel (injectStars_at E S pg n)) = length (querySelectorAll sel n)"
    by (simp add: count_in_split)
  then show ?thesis
    by (simp add: querySelector_None_iff list_ex_descendants_count)
qed

lemma injectStars_at_settled:
  assumes block: "matches SEL_operations n"
  shows "\<not> eligible E (injectStars_at E S pg n)"
proof (cases "eligible E n")
  case False
  show ?thesis
  proof (cases "querySelector SEL_star n = None")
    case True
    with False have "querySelector SEL_method n = None \<or> querySelector SEL_path n = None
        \<or> querySelector SEL_summary_region n = None"
      by (auto simp: eligible_def parseOperation_None_iff)
    then have "querySelector SEL_method (injectStars_at E S pg n) = None
        \<or> querySelector SEL_path (injectStars_at E S pg n) = None
        \<or> querySelector SEL_summary_region (injectStars_at E S pg n) = None"
      by (simp add: injectStars_at_querySelector star_button_counts)
    then show ?thesis by (auto simp: eligible_def parseOperation_None_iff)
  next
    case False
    then have "0 < length (querySelectorAll SEL_star n)"
      by (simp add: querySelector_None_iff list_ex_descendants_count)
    moreover from injectStars_at_star_mono [of n E S pg] injectStars_at_root [of SEL_star E S pg n]
    have "length (querySelectorAll SEL_star n)
        \<le> length (querySelectorAll SEL_star (injectStars_at E S pg n))"
      by (simp add: count_in_split split: if_splits)
    ultimately have "0 < length (querySelectorAll SEL_star (injectStars_at E S pg n))"
      by linarith
    then show ?thesis
      by (simp add: eligible_def querySelector_None_iff list_ex_descendants_count)
  qed
next
  case True
  from block obtain tg i cs as ch where n: "n = Element tg i cs as ch" by (cases n) auto
  from injectStar_Element [of E S pg tg i cs as ch] n obtain ch'
    where inj: "injectStar E S pg n = Element tg i cs as ch'" by auto
  have unf: "injectStars_at E S pg n = Element tg i cs as (map (injectStars_at E S pg) ch')"
    by (rule injectStars_at_block [OF block inj])
  from injectStar_count [of SEL_star 1 E S pg n] True
  have "count_in SEL_star (injectStar E S pg n) = count_in SEL_star n + 1"
    by (simp add: star_button_counts)
  with inj n have "count_in SEL_star (Element tg i cs as ch')
      = count_in SEL_star (Element tg i cs as ch) + 1" by simp
  then have "0 < sum_list (map (count_in SEL_star) ch')"
    by (simp add: count_in_Element split: if_splits)
  moreover have "sum_list (map (count_in SEL_star) ch')
      \<le> sum_list (map (count_in SEL_star) (map (injectStars_at E S pg) ch'))"
    by (simp add: sum_list_mono comp_def injectStars_at_star_mono)
  ultimately have "0 < length (querySelectorAll SEL_star (injectStars_at E S pg n))"
    unfolding unf by (simp only: querySelectorAll_Element)
  then show ?thesis
    by (simp add: eligible_def querySelector_None_iff list_ex_descendants_count)
qed

lemma injectStars_at_idem:
  "injectStars_at E S2 pg2 (injectStars_at E S pg n) = injectStars_at E S pg n"
proof (induction E S pg n rule: injectStars_at.induct)
  case (1 E S pg n)
  let ?n' = "if matches SEL_operations n then injectStar E S pg n else n"
  show ?case
  proof (cases ?n')
    case (Text t)
    then have "injectStars_at E S pg n = Text t"
      by (subst injectStars_at.simps) simp
    then show ?thesis by (simp add: injectStars_at_Text)
  next
    case (Element tg i cs as ch)
    then have unf: "injectStars_at E S pg n = Element tg i cs as (map (injectStars_at E S pg) ch)"
      by (subst injectStars_at.simps) simp
    let ?r = "Element tg i cs as (map (injectStars_at E S pg) ch)"
    have kids: "map (injectStars_at E S2 pg2) (map (injectStars_at E S pg) ch)
        = map (injectStars_at E S pg) ch"
      using "1.IH" [OF Element] by simp
    have "injectStars_at E S2 pg2 ?r = Element tg i cs as
        (map (injectStars_at E S2 pg2) (map (injectStars_at E S pg) ch))"
    proof (cases "matches SEL_operations ?r")
      case False
      then show ?thesis by (rule injectStars_at_plain)
    next
      case True
      then have "matches SEL_operations n"
        using injectStars_at_root [of SEL_operations E S pg n] unf by simp
      then have "\<not> eligible E ?r"
        using injectStars_at_settled [of n E S pg] unf by simp
      then have "injectStar E S2 pg2 ?r = ?r" by (rule injectStar_unchanged)
      with True show ?thesis by (rule injectStars_at_block)
    qed
    with kids unf show ?thesis by simp
  qed
qed

lemma injectStarsIntoOperations_idem:
  "injectStarsIntoOperations E st2 pg2 (injectStarsIntoOperations E st pg doc)
     = injectStarsIntoOperations E st pg doc"
  by (cases doc) (simp_all add: injectStarsIntoOperations_def injectStars_at_idem)


lemma eligible_iff: "eligible E b \<longleftrightarrow> well_formed b \<and> star_controls b = 0"
  by (auto simp: eligible_def well_formed_def star_controls_def parseOperation_None_iff
      querySelector_None_iff list_ex_descendants_count)

lemma injectStar_root: "matches sel (injectStar E S pg n) = matches sel n"
proof (cases n)
  case (Text t)
  then show ?thesis by (simp add: injectStar_Text)
next
  case (Element tg i cs as ch)
  from injectStar_Element [of E S pg tg i cs as ch] obtain ch'
    where "injectStar E S pg (Element tg i cs as ch) = Element tg i cs as ch'" by auto
  with Element show ?thesis
    using matches_children [of sel tg i cs as ch' ch] by simp
qed

lemma injectStar_querySelectorAll:
  assumes k: "\<And>m p st. count_in sel (createStarButton m p st) = k"
  shows "length (querySelectorAll sel (injectStar E S pg b))
     = length (querySelectorAll sel b) + (if eligible E b then k else 0)"
  using injectStar_count [of sel k E S pg b, OF k] injectStar_root [of sel E S pg b]
  by (simp add: count_in_split)

lemma injectStar_star_controls:
  "star_controls (injectStar E S pg b) = star_controls b + (if eligible E b then 1 else 0)"
  unfolding star_controls_def
  by (rule injectStar_querySelectorAll) (simp add: star_button_counts)

lemma injectStar_well_formed: "well_formed (injectStar E S pg b) \<longleftrightarrow> well_formed b"
proof -
  have "length (querySelectorAll sel (injectStar E S pg b)) = length (querySelectorAll sel b)"
    if "\<And>m p st. count_in sel (createStarButton m p st) = 0" for sel
    using injectStar_querySelectorAll [of sel 0 E S pg b] that by simp
  then show ?thesis
    by (simp add: well_formed_def querySelector_None_iff list_ex_descendants_count
        star_button_counts)
qed

lemma injectStars_at_no_blocks:
  "count_in SEL_operations n = 0 \<Longrightarrow> injectStars_at E S pg n = n"
proof (induction n)
  case (Text t)
  then show ?case by (simp add: injectStars_at_Text)
next
  case (Element tg i cs as ch)
  from Element.prems have root: "\<not> matches SEL_operations (Element tg i cs as ch)"
    and kids: "\<forall>c\<in>set ch. count_in SEL_operations c = 0"
    using matches_children [of SEL_operations tg i cs as ch "[]"]
    by (auto simp: count_in_Element split: if_splits)
  from kids Element.IH have "map (injectStars_at E S pg) ch = ch"
    by (simp add: map_idI)
  with root show ?case by (simp add: injectStars_at_plain)
qed

lemma injectStars_at_single_block:
  assumes block: "matches SEL_operations n" and inner: "querySelectorAll SEL_operations n = []"
  shows "injectStars_at E S pg n = injectStar E S pg n"
proof -
  from block obtain tg i cs as ch where n: "n = Element tg i cs as ch" by (cases n) auto
  from injectStar_Element [of E S pg tg i cs as ch] n obtain ch'
    where inj: "injectStar E S pg n = Element tg i cs as ch'" by auto
  have "length (querySelectorAll SEL_operations (injectStar E S pg n)) = 0"
    using injectStar_querySelectorAll [of SEL_operations 0 E S pg n] inner
    by (simp add: star_button_counts)
  then have "sum_list (map (count_in SEL_operations) ch') = 0"
    unfolding inj by (simp only: querySelectorAll_Element)
  then have "\<forall>c\<in>set ch'. count_in SEL_operations c = 0" by simp
  then have "map (injectStars_at E S pg) ch' = ch'"
    by (simp add: map_idI injectStars_at_no_blocks)
  with injectStars_at_block [OF block inj] inj show ?thesis by simp
qed

lemma blocks_from_Element:
  "blocks_from (Element tg i cs as ch)
     = (if matches SEL_operations (Element tg i cs as ch) then [Element tg i cs as ch] else [])
       @ concat (map blocks_from ch)"
proof -
  have "filter (matches SEL_operations) (concat (map (\<lambda>c. c # descendants c) ch))
      = concat (map blocks_from ch)"
    by (induction ch) (simp_all add: blocks_from_def)
  then show ?thesis by (simp add: blocks_from_def)
qed

lemma querySelectorAll_blocks:
  "querySelectorAll SEL_operations (Element tg i cs as ch) = concat (map blocks_from ch)"
proof -
  have "filter (matches SEL_operations) (concat (map (\<lambda>c. c # descendants c) ch))
      = concat (map blocks_from ch)"
    by (induction ch) (simp_all add: blocks_from_def)
  then show ?thesis by (simp add: querySelectorAll_def)
qed

lemma injectStars_at_blocks:
  "\<forall>b\<in>set (blocks_from n). querySelectorAll SEL_operations b = [] \<Longrightarrow>
     blocks_from (injectStars_at E S pg n) = map (injectStar E S pg) (blocks_from n)"
proof (induction n)
  case (Text t)
  then show ?case by (simp add: injectStars_at_Text blocks_from_def)
next
  case (Element tg i cs as ch)
  let ?n = "Element tg i cs as ch"
  show ?case
  proof (cases "matches SEL_operations ?n")
    case True
    with Element.prems have inner: "querySelectorAll SEL_operations ?n = []"
      by (simp add: blocks_from_def)
    then have only: "blocks_from ?n = [?n]"
      using True by (simp add: blocks_from_def querySelectorAll_def)
    have same: "injectStars_at E S pg ?n = injectStar E S pg ?n"
      using True inner by (rule injectStars_at_single_block)
    have "length (querySelectorAll SEL_operations (injectStar E S pg ?n)) = 0"
      using injectStar_querySelectorAll [of SEL_operations 0 E S pg ?n] inner
      by (simp add: star_button_counts)
    then have "blocks_from (injectStar E S pg ?n) = [injectStar E S pg ?n]"
      using True injectStar_root [of SEL_operations E S pg ?n]
      by (simp add: blocks_from_def querySelectorAll_def)
    with same only show ?thesis by simp
  next
    case False
    then have unf: "injectStars_at E S pg ?n = Element tg i cs as (map (injectStars_at E S pg) ch)"
      by (rule injectStars_at_plain)
    from False have root': "\<not> matches SEL_operations
        (Element tg i cs as (map (injectStars_at E S pg) ch))"
      using matches_children [of SEL_operations tg i cs as ch "map (injectStars_at E S pg) ch"]
      by simp
    have kids: "blocks_from (injectStars_at E S pg c) = map (injectStar E S pg) (blocks_from c)"
      if "c \<in> set ch" for c
    proof (rule Element.IH [OF that])
      from that Element.prems False
      show "\<forall>b\<in>set (blocks_from c). querySelectorAll SEL_operations b = []"
        by (auto simp: blocks_from_Element)
    qed
    then have "concat (map blocks_from (map (injectStars_at E S pg) ch))
        = map (injectStar E S pg) (concat (map blocks_from ch))"
      by (simp add: map_concat comp_def cong: map_cong)
    with False root' unf show ?thesis
      by (simp add: blocks_from_Element)
  qed
qed

lemma injectStarsIntoOperations_blocks:
  assumes "not_nested doc"
  shows "querySelectorAll SEL_operations (injectStarsIntoOperations E st pg doc)
     = map (injectStar E (getStarredRoutes st) pg) (querySelectorAll SEL_operations doc)"
proof (cases doc)
  case (Text t)
  then show ?thesis by (simp add: injectStarsIntoOperations_def querySelectorAll_def)
next
  case (Element tg i cs as ch)
  let ?S = "getStarredRoutes st"
  have kids: "blocks_from (injectStars_at E ?S pg c) = map (injectStar E ?S pg) (blocks_from c)"
    if "c \<in> set ch" for c
  proof (rule injectStars_at_blocks)
    from assms that Element
    show "\<forall>b\<in>set (blocks_from c). querySelectorAll SEL_operations b = []"
      by (auto simp: not_nested_def list_all_iff querySelectorAll_blocks)
  qed
  then have "concat (map blocks_from (map (injectStars_at E ?S pg) ch))
      = map (injectStar E ?S pg) (concat (map blocks_from ch))"
    by (simp add: map_concat comp_def cong: map_cong)
  with Element show ?thesis
    by (simp add: injectStarsIntoOperations_def querySelectorAll_blocks)
qed

text \<open>
  C1 as stated fails: in a page where a well-formed operation block holds
  another one, with no star control anywhere, two runs of the injection
  leave two star controls inside the outer block, its own and that of the
  inner block.
\<close>

theorem injection_nested_counterexample:
  "querySelectorAll SEL_star nested_doc = []
   \<and> well_formed (querySelectorAll SEL_operations
         (injectStarsIntoOperations ascii_engine None example_page
            (injectStarsIntoOperations ascii_engine None example_page nested_doc)) ! 0)
   \<and> star_controls (querySelectorAll SEL_operations
         (injectStarsIntoOperations ascii_engine None example_page
            (injectStarsIntoOperations ascii_engine None example_page nested_doc)) ! 0) = 2"
  by code_simp

text \<open>
  C1, amended. In every DOM state a second run of the injection, whatever
  the starred set is by then, changes nothing, and so does any further run;
  a block that carries a star control is skipped. In every DOM state in
  which no operation block lies inside another, a run keeps the blocks and
  their order, gives each well-formed block (method, path and summary
  element) without a star control exactly one, and leaves every other block
  as it is; so when no block starts with more than one star control, every
  well-formed block has exactly one after two runs.
\<close>

theorem star_injection_idempotent:
  "injectStarsIntoOperations E st2 pg2 (injectStarsIntoOperations E st pg doc)
      = injectStarsIntoOperations E st pg doc
   \<and> (injectStarsIntoOperations E st pg ^^ Suc k) doc = injectStarsIntoOperations E st pg doc
   \<and> (querySelector SEL_star b \<noteq> None \<longrightarrow> injectStar E (getStarredRoutes st) pg b = b)
   \<and> (not_nested doc \<longrightarrow>
        length (querySelectorAll SEL_operations (injectStarsIntoOperations E st pg doc))
          = length (querySelectorAll SEL_operations doc)
        \<and> (\<forall>i<length (querySelectorAll SEL_operations doc).
              (well_formed (querySelectorAll SEL_operations
                              (injectStarsIntoOperations E st pg doc) ! i)
                 \<longleftrightarrow> well_formed (querySelectorAll SEL_operations doc ! i))
              \<and> (well_formed (querySelectorAll SEL_operations doc ! i)
                  \<and> star_controls (querySelectorAll SEL_operations doc ! i) = 0
                  \<longrightarrow> star_controls (querySelectorAll SEL_operations
                                       (injectStarsIntoOperations E st pg doc) ! i) = 1)
              \<and> (0 < star_controls (querySelectorAll SEL_operations doc ! i)
                  \<or> \<not> well_formed (querySelectorAll SEL_operations doc ! i)
                  \<longrightarrow> querySelectorAll SEL_operations (injectStarsIntoOperations E st pg doc) ! i
                      = querySelectorAll SEL_operations doc ! i)))
   \<and> (not_nested doc
        \<and> (\<forall>b\<in>set (querySelectorAll SEL_operations doc). star_controls b \<le> 1)
        \<longrightarrow> (\<forall>b\<in>set (querySelectorAll SEL_operations
                          (injectStarsIntoOperations E st2 pg2
                             (injectStarsIntoOperations E st pg doc))).
               well_formed b \<longrightarrow> star_controls b = 1))"
proof -
  let ?S = "getStarredRoutes st"
  let ?before = "querySelectorAll SEL_operations doc"
  let ?after = "querySelectorAll SEL_operations (injectStarsIntoOperations E st pg doc)"
  have twice: "injectStarsIntoOperations E st2 pg2 (injectStarsIntoOperations E st pg doc)
      = injectStarsIntoOperations E st pg doc"
    by (rule injectStarsIntoOperations_idem)
  have often: "(injectStarsIntoOperations E st pg ^^ Suc k) doc
      = injectStarsIntoOperations E st pg doc"
    by (induction k) (simp_all add: injectStarsIntoOperations_idem)
  have skipped: "querySelector SEL_star b \<noteq> None \<longrightarrow> injectStar E ?S pg b = b"
    by (simp add: injectStar_unchanged eligible_def)
  have each: "(well_formed (injectStar E ?S pg x) \<longleftrightarrow> well_formed x)
      \<and> (well_formed x \<and> star_controls x = 0 \<longrightarrow> star_controls (injectStar E ?S pg x) = 1)
      \<and> (0 < star_controls x \<or> \<not> well_formed x \<longrightarrow> injectStar E ?S pg x = x)" for x
    using injectStar_star_controls [of E ?S pg x] injectStar_unchanged [of E x ?S pg]
    by (auto simp: injectStar_well_formed eligible_iff)
  have flat: "length ?after = length ?before
        \<and> (\<forall>i<length ?before.
              (well_formed (?after ! i) \<longleftrightarrow> well_formed (?before ! i))
              \<and> (well_formed (?before ! i) \<and> star_controls (?before ! i) = 0
                  \<longrightarrow> star_controls (?after ! i) = 1)
              \<and> (0 < star_controls (?before ! i) \<or> \<not> well_formed (?before ! i)
                  \<longrightarrow> ?after ! i = ?before ! i))"
    if "not_nested doc"
    using each by (simp add: injectStarsIntoOperations_blocks [OF that])
  have one: "\<forall>b\<in>set (querySelectorAll SEL_operations
                          (injectStarsIntoOperations E st2 pg2
                             (injectStarsIntoOperations E st pg doc))).
               well_formed b \<longrightarrow> star_controls b = 1"
    if flat': "not_nested doc" and few: "\<forall>b\<in>set ?before. star_controls b \<le> 1"
  proof
    fix b
    assume "b \<in> set (querySelectorAll SEL_operations
                          (injectStarsIntoOperations E st2 pg2
                             (injectStarsIntoOperations E st pg doc)))"
    then have "b \<in> set (map (injectStar E ?S pg) ?before)"
      by (simp only: twice injectStarsIntoOperations_blocks [OF flat'])
    then obtain x where x: "x \<in> set ?before" "b = injectStar E ?S pg x" by auto
    from few x(1) have "star_controls x \<le> 1" by blast
    with each [of x] x(2) show "well_formed b \<longrightarrow> star_controls b = 1"
      by (cases "star_controls x = 0") auto
  qed
  from twice often skipped flat one show ?thesis by blast
qed


theorem star_injection_idempotent_witness:
  "not_nested example_doc
   \<and> list_all (\<lambda>b. star_controls b \<le> 1) (querySelectorAll SEL_operations example_doc)
   \<and> map well_formed (querySelectorAll SEL_operations example_doc) = [True, False, True, True]
   \<and> map star_controls (querySelectorAll SEL_operations example_doc) = [0, 0, 0, 0]
   \<and> map star_controls (querySelectorAll SEL_operations
         (injectStarsIntoOperations ascii_engine example_store example_page example_doc)) = [1, 0, 1, 1]
   \<and> injectStarsIntoOperations ascii_engine None example_page
         (injectStarsIntoOperations ascii_engine example_store example_page example_doc)
       = injectStarsIntoOperations ascii_engine example_store example_page example_doc
   \<and> star_controls (querySelectorAll SEL_operations
         (injectStarsIntoOperations ascii_engine example_store example_page example_doc) ! 0) = 1
   \<and> querySelectorAll SEL_operations
         (injectStarsIntoOperations ascii_engine example_store example_page example_doc) ! 1
       = querySelectorAll SEL_operations example_doc ! 1
   \<and> list_all (\<lambda>b. \<not> well_formed b \<or> star_controls b = 1)
         (querySelectorAll SEL_operations
            (injectStarsIntoOperations ascii_engine None example_page
               (injectStarsIntoOperations ascii_engine example_store example_page example_doc)))
   \<and> querySelector SEL_star (querySelectorAll SEL_operations
         (injectStarsIntoOperations ascii_engine example_store example_page example_doc) ! 0) \<noteq> None
   \<and> injectStar ascii_engine (getStarredRoutes example_store) example_page
         (querySelectorAll SEL_operations
            (injectStarsIntoOperations ascii_engine example_store example_page example_doc) ! 0)
       = querySelectorAll SEL_operations
            (injectStarsIntoOperations ascii_engine example_store example_page example_doc) ! 0"
proof -
  let ?once = "injectStarsIntoOperations ascii_engine example_store example_page example_doc"
  let ?twice = "injectStarsIntoOperations ascii_engine None example_page ?once"
  have flat: "not_nested example_doc" by code_simp
  have few: "list_all (\<lambda>b. star_controls b \<le> 1) (querySelectorAll SEL_operations example_doc)"
    by code_simp
  have wf: "map well_formed (querySelectorAll SEL_operations example_doc)
      = [True, False, True, True]" by code_simp
  have none: "map star_controls (querySelectorAll SEL_operations example_doc) = [0, 0, 0, 0]"
    by code_simp
  have counts: "map star_controls (querySelectorAll SEL_operations ?once) = [1, 0, 1, 1]"
    by code_simp
  have carries: "querySelector SEL_star (querySelectorAll SEL_operations ?once ! 0) \<noteq> None"
    by code_simp
  note inst = star_injection_idempotent [of ascii_engine None example_page example_store example_page
      example_doc 0 "querySelectorAll SEL_operations ?once ! 0"]
  from inst have idem: "?twice = ?once" by blast
  from inst carries
  have skip: "injectStar ascii_engine (getStarredRoutes example_store) example_page
      (querySelectorAll SEL_operations ?once ! 0) = querySelectorAll SEL_operations ?once ! 0"
    by blast
  have len: "length (querySelectorAll SEL_operations example_doc) = 4" by code_simp
  have b0: "well_formed (querySelectorAll SEL_operations example_doc ! 0)"
      "star_controls (querySelectorAll SEL_operations example_doc ! 0) = 0"
      "\<not> well_formed (querySelectorAll SEL_operations example_doc ! 1)"
    by code_simp+
  from inst flat b0 len
  have one0: "star_controls (querySelectorAll SEL_operations ?once ! 0) = 1"
    and same1: "querySelectorAll SEL_operations ?once ! 1
       = querySelectorAll SEL_operations example_doc ! 1"
    by auto
  from few have few': "\<forall>b\<in>set (querySelectorAll SEL_operations example_doc). star_controls b \<le> 1"
    by (simp add: list_all_iff)
  from inst flat few'
  have "\<forall>b\<in>set (querySelectorAll SEL_operations ?twice). well_formed b \<longrightarrow> star_controls b = 1"
    by blast
  then have all_one: "list_all (\<lambda>b. \<not> well_formed b \<or> star_controls b = 1)
      (querySelectorAll SEL_operations ?twice)"
    by (auto simp: list_all_iff)
  from flat few wf none counts idem one0 same1 all_one carries skip
  show ?thesis by (intro conjI)
qed

end
